theory Spec2Isabelle
  imports Main
begin

section \<open>Reflection data: kinds, types, values\<close>

text \<open>
  The kinds of Go's \<^verbatim>\<open>reflect.Kind\<close>, in the order of the enumeration. The decoder
  switches on them (decode_state.go, lines 105-124 and 136-159).
\<close>

datatype kind =
    KInvalid | KBool
  | KInt | KInt8 | KInt16 | KInt32 | KInt64
  | KUint | KUint8 | KUint16 | KUint32 | KUint64 | KUintptr
  | KFloat32 | KFloat64 | KComplex64 | KComplex128
  | KArray | KChan | KFunc | KInterface | KMap | KPointer | KSlice | KString
  | KStruct | KUnsafePointer

text \<open>
  A \<^verbatim>\<open>reflect.Type\<close>, as far as the decoder reads it: \<^verbatim>\<open>Kind()\<close> and
  \<^verbatim>\<open>String()\<close>.
\<close>

record rtype =
  type_Kind :: kind
  type_String :: string

text \<open>
  The value held by a struct field. \<open>'f\<close> is the type of floating-point numbers, which
  the development leaves open. A slice holds its elements; \<open>OtherV\<close> stands for the
  value of any kind the decoder never writes (maps, nested structs, interfaces, ...).
\<close>

datatype 'f val =
    IntV int
  | UintV nat
  | FloatV 'f
  | BoolV bool
  | StringV string
  | SliceV "'f val list"
  | OtherV

text \<open>
  One field of the destination struct: \<open>Name\<close> is \<^verbatim>\<open>field.Name\<close>, \<open>Tag\<close> is
  \<^verbatim>\<open>field.Tag.Get("request")\<close> (empty when the tag is absent), \<open>CanSet\<close> is
  \<^verbatim>\<open>fieldValue.CanSet()\<close>, \<open>Kind\<close> is \<^verbatim>\<open>fieldValue.Kind()\<close>, \<open>Elem\<close> is
  \<^verbatim>\<open>fieldValue.Type().Elem().Kind()\<close> (read for slices only) and \<open>Val\<close> is the
  current content.
\<close>

record 'f field =
  Name :: string
  Tag :: string
  CanSet :: bool
  Kind :: kind
  Elem :: kind
  Val :: "'f val"

text \<open>\<^verbatim>\<open>fieldValue.Len()\<close> and the elements of a slice field.\<close>

fun elems :: "'f val \<Rightarrow> 'f val list" where
  "elems (SliceV xs) = xs"
| "elems _ = []"

definition Len :: "'f field \<Rightarrow> nat" where
  "Len fieldValue = length (elems (Val fieldValue))"

text \<open>
  The second argument of \<^verbatim>\<open>Load\<close>, an \<^verbatim>\<open>any\<close>: the nil interface, a value that
  is not a pointer (with its type), a nil pointer (with its pointer type), or a pointer to
  a value of type \<open>t\<close> whose fields, when it is a struct, are the list.
\<close>

datatype 'f dest =
    NilInterface
  | NonPointer rtype
  | NilPointer rtype
  | Pointer rtype "'f field list"

section \<open>Errors and panics\<close>

text \<open>
  The three errors of the package (lines 13-46). \<open>LoadTypeError\<close> carries \<^verbatim>\<open>Value\<close>,
  \<^verbatim>\<open>Type\<close>, \<^verbatim>\<open>Struct\<close> and \<^verbatim>\<open>Field\<close>; \<open>InvalidLoadError\<close> carries the type
  of the destination, absent for the nil interface.
\<close>

datatype error =
    errInvalidValue
  | InvalidLoadError "rtype option"
  | LoadTypeError string rtype string string

fun InvalidLoadError_Error :: "rtype option \<Rightarrow> string" where
  "InvalidLoadError_Error None = ''form: Parse(nil)''"
| "InvalidLoadError_Error (Some t) =
     (if type_Kind t = KPointer then ''form: Parse(nil '' @ type_String t @ '')''
      else ''form: Parse(non-pointer '' @ type_String t @ '')'')"

definition LoadTypeError_Error :: "string \<Rightarrow> rtype \<Rightarrow> string \<Rightarrow> string \<Rightarrow> string" where
  "LoadTypeError_Error v t s f =
     (if s = [] then
        (if f = [] then ''form: cannot load '' @ v @ '' into Go value of type '' @ type_String t
         else ''form: cannot load '' @ v @ '' into Go struct field '' @ s @ ''.'' @ f
                @ '' of type '' @ type_String t)
      else ''form: cannot load '' @ v @ '' into Go struct field '' @ s @ ''.'' @ f
             @ '' of type '' @ type_String t)"

fun Error :: "error \<Rightarrow> string" where
  "Error errInvalidValue = ''form: invalid value''"
| "Error (InvalidLoadError t) = InvalidLoadError_Error t"
| "Error (LoadTypeError v t s f) = LoadTypeError_Error v t s f"

text \<open>
  The run-time panics the decoder can raise: \<^verbatim>\<open>reflect.MakeSlice\<close> called with a type
  that is not a slice type, a \<^verbatim>\<open>reflect.Value\<close> setter called on a value of the wrong
  kind (\<^verbatim>\<open>*reflect.ValueError\<close>: method and kind), and an index out of range (index
  and length).
\<close>

datatype panic =
    MakeSliceOfNonSliceType
  | ValueError string kind
  | IndexOutOfRange nat nat

text \<open>
  A call either returns a result in a final state or panics in the state reached so far.
\<close>

datatype ('r, 's) outcome = Panic panic 's | Return 'r 's

fun state_of :: "('r, 's) outcome \<Rightarrow> 's" where
  "state_of (Panic p s) = s"
| "state_of (Return r s) = s"

fun returns :: "('r, 's) outcome \<Rightarrow> bool" where
  "returns (Panic p s) = False"
| "returns (Return r s) = True"

section \<open>The standard library's integer parsers, as the decoder calls them\<close>

text \<open>
  \<^verbatim>\<open>strconv.ParseUint(s, 10, 64)\<close>: the empty string and any byte that is not a decimal
  digit give 0 and a syntax error; a digit that takes the number beyond 64 bits gives the
  largest 64-bit number and a range error at once, before the remaining bytes are read.
  The arithmetic is that of \<^verbatim>\<open>uint64\<close>, the wrap-around written out.
\<close>

datatype numError = ErrSyntax | ErrRange

definition isDigit :: "char \<Rightarrow> bool" where
  "isDigit c = (48 \<le> (of_char c :: nat) \<and> (of_char c :: nat) \<le> 57)"

definition maxUint64 :: nat where
  "maxUint64 = 18446744073709551615"

fun ParseUint_digits :: "nat \<Rightarrow> string \<Rightarrow> nat \<times> numError option" where
  "ParseUint_digits n [] = (n, None)"
| "ParseUint_digits n (c # cs) =
     (if isDigit c then
        (if maxUint64 div 10 + 1 \<le> n then (maxUint64, Some ErrRange)
         else
           (let n10 = (n * 10) mod 18446744073709551616;
                n1 = (n10 + (of_char c - 48)) mod 18446744073709551616
            in if n1 < n10 then (maxUint64, Some ErrRange)
               else if maxUint64 < n1 then (maxUint64, Some ErrRange)
               else ParseUint_digits n1 cs))
      else (0, Some ErrSyntax))"

definition ParseUint :: "string \<Rightarrow> nat \<times> numError option" where
  "ParseUint s = (if s = [] then (0, Some ErrSyntax) else ParseUint_digits 0 s)"

text \<open>
  \<^verbatim>\<open>strconv.ParseInt(s, 10, 64)\<close>: an optional sign, then \<^verbatim>\<open>ParseUint\<close>; a syntax
  error gives 0, a number out of the signed 64-bit range gives the nearest bound and a
  range error.
\<close>

definition int64 :: "int \<Rightarrow> int" where
  "int64 x = (x + 9223372036854775808) mod 18446744073709551616 - 9223372036854775808"

definition ParseInt_signed :: "bool \<Rightarrow> string \<Rightarrow> int \<times> numError option" where
  "ParseInt_signed neg s =
     (case ParseUint s of
        (un, Some ErrSyntax) \<Rightarrow> (0, Some ErrSyntax)
      | (un, _) \<Rightarrow>
          (if neg then
             (if 9223372036854775808 < un then (- 9223372036854775808, Some ErrRange)
              else (int64 (- int64 (int un)), None))
           else
             (if 9223372036854775808 \<le> un then (9223372036854775807, Some ErrRange)
              else (int64 (int un), None))))"

fun ParseInt :: "string \<Rightarrow> int \<times> numError option" where
  "ParseInt [] = (0, Some ErrSyntax)"
| "ParseInt (c # cs) =
     (if c = CHR ''+'' then ParseInt_signed False cs
      else if c = CHR ''-'' then ParseInt_signed True cs
      else ParseInt_signed False (c # cs))"

text \<open>
  \<^verbatim>\<open>reflect.Value.SetInt\<close> and \<^verbatim>\<open>SetUint\<close> convert the 64-bit number to the
  field's own width, dropping the high bits (\<^verbatim>\<open>int\<close>, \<^verbatim>\<open>uint\<close> and
  \<^verbatim>\<open>uintptr\<close> are 64 bits wide here). \<open>Bits\<close> is the width \<^verbatim>\<open>Type.Bits()\<close>,
  read for the kinds of integers and floats only.
\<close>

fun Bits :: "kind \<Rightarrow> nat" where
  "Bits KInt8 = 8"
| "Bits KInt16 = 16"
| "Bits KInt32 = 32"
| "Bits KUint8 = 8"
| "Bits KUint16 = 16"
| "Bits KUint32 = 32"
| "Bits KFloat32 = 32"
| "Bits _ = 64"

definition SetInt :: "kind \<Rightarrow> int \<Rightarrow> 'f val" where
  "SetInt k x = IntV ((x + 2 ^ (Bits k - 1)) mod 2 ^ Bits k - 2 ^ (Bits k - 1))"

definition SetUint :: "kind \<Rightarrow> nat \<Rightarrow> 'f val" where
  "SetUint k x = UintV (x mod 2 ^ Bits k)"

section \<open>The decode session\<close>

text \<open>The struct \<^verbatim>\<open>decodeState\<close> (lines 48-51) and its small methods (lines 165-178).\<close>

record decodeState =
  data :: "string \<rightharpoonup> string list"
  savedError :: "error option"

definition addErrorContext :: "decodeState \<Rightarrow> error \<Rightarrow> error" where
  "addErrorContext d err = err"

definition saveError :: "decodeState \<Rightarrow> error \<Rightarrow> decodeState" where
  "saveError d err =
     (if savedError d = None then d\<lparr>savedError := Some (addErrorContext d err)\<rparr> else d)"

definition init :: "decodeState \<Rightarrow> (string \<rightharpoonup> string list) \<Rightarrow> decodeState" where
  "init d dat = d\<lparr>savedError := None, data := dat\<rparr>"

text \<open>
  A \<^verbatim>\<open>for\<close> loop over a list whose body may panic: the loop stops at the first panic.
\<close>

fun foreach :: "('a \<Rightarrow> 's \<Rightarrow> (unit, 's) outcome) \<Rightarrow> 'a list \<Rightarrow> 's \<Rightarrow> (unit, 's) outcome" where
  "foreach body [] s = Return () s"
| "foreach body (x # xs) s =
     (case body x s of
        Panic p s' \<Rightarrow> Panic p s'
      | Return u s' \<Rightarrow> foreach body xs s')"

text \<open>The kinds named by the \<^verbatim>\<open>case\<close> lists of the two switches.\<close>

definition int_kinds :: "kind list" where
  "int_kinds = [KInt, KInt8, KInt16, KInt32, KInt64]"

definition uint_kinds :: "kind list" where
  "uint_kinds = [KUint, KUint8, KUint16, KUint32, KUint64, KUintptr]"

definition float_kinds :: "kind list" where
  "float_kinds = [KFloat32, KFloat64]"

text \<open>
  \<^verbatim>\<open>dataV[i]\<close>: the string at position \<open>i\<close>, or the run-time panic when \<open>i\<close> is out of
  range.
\<close>

definition index :: "string list \<Rightarrow> nat \<Rightarrow> 's \<Rightarrow> (string \<Rightarrow> (unit, 's) outcome) \<Rightarrow> (unit, 's) outcome" where
  "index dataV i s k =
     (if i < length dataV then k (dataV ! i) else Panic (IndexOutOfRange i (length dataV)) s)"

text \<open>
  The body of the element loop (lines 104-124), on the session and the elements of the
  slice. \<open>pf bits s\<close> stands for lines 116-121 and 149-154: \<^verbatim>\<open>strconv.ParseFloat\<close>
  followed by the overflow test gives \<open>None\<close> when either fails, and otherwise the number
  that \<^verbatim>\<open>SetFloat\<close> stores. \<^verbatim>\<open>SetString\<close> on an element of kind \<^verbatim>\<open>Interface\<close>
  panics, since the setter demands kind \<^verbatim>\<open>String\<close>; its argument \<^verbatim>\<open>dataV[i]\<close> is
  evaluated first. \<open>t\<close> is \<^verbatim>\<open>v.Type()\<close>, the type of the whole struct.
\<close>

definition value_elem ::
  "(nat \<Rightarrow> string \<Rightarrow> 'f option) \<Rightarrow> rtype \<Rightarrow> kind \<Rightarrow> string list \<Rightarrow> nat
     \<Rightarrow> decodeState \<times> 'f val list \<Rightarrow> (unit, decodeState \<times> 'f val list) outcome" where
  "value_elem pf t ek dataV i s =
     (case s of (d, es) \<Rightarrow>
        if ek \<in> set int_kinds then
          index dataV i s (\<lambda>x. Return () (d, es[i := SetInt ek (fst (ParseInt x))]))
        else if ek \<in> set uint_kinds then
          index dataV i s (\<lambda>x.
            case ParseUint x of
              (intV, None) \<Rightarrow> Return () (d, es[i := SetUint ek intV])
            | (intV, Some err) \<Rightarrow>
                Return () (saveError d (LoadTypeError (''array '' @ x) t [] []),
                           es[i := SetUint ek intV]))
        else if ek \<in> set float_kinds then
          index dataV i s (\<lambda>x.
            case pf (Bits ek) x of
              None \<Rightarrow> Return () (saveError d (LoadTypeError (''array '' @ x) t [] []), es)
            | Some n \<Rightarrow> Return () (d, es[i := FloatV n]))
        else if ek = KString then
          index dataV i s (\<lambda>x. Return () (d, es[i := StringV x]))
        else if ek = KInterface then
          index dataV i s (\<lambda>x. Panic (ValueError ''reflect.Value.SetString'' KInterface) s)
        else Return () s)"

text \<open>
  Lines 98-126, for a field of kind \<^verbatim>\<open>Slice\<close>. When the field is empty, line 100 calls
  \<^verbatim>\<open>reflect.MakeSlice(v.Type(), ...)\<close> with the type of the struct \<open>v\<close>, not of the
  field: \<^verbatim>\<open>MakeSlice\<close> panics on a type that is not a slice type, and \<open>v.Type()\<close> is a
  struct type here (line 69), so nothing is ever resized. Otherwise the loop runs over
  the positions of the field and writes the elements back into field \<open>i\<close>.
\<close>

definition value_slice ::
  "(nat \<Rightarrow> string \<Rightarrow> 'f option) \<Rightarrow> rtype \<Rightarrow> string list \<Rightarrow> nat
     \<Rightarrow> decodeState \<times> 'f field list \<Rightarrow> (unit, decodeState \<times> 'f field list) outcome" where
  "value_slice pf t dataV i s =
     (case s of (d, v) \<Rightarrow>
        let fieldValue = v ! i in
        if Len fieldValue = 0 then Panic MakeSliceOfNonSliceType s
        else
          (case foreach (value_elem pf t (Elem fieldValue) dataV) [0 ..< Len fieldValue]
                  (d, elems (Val fieldValue)) of
             Panic p (d', es) \<Rightarrow> Panic p (d', v[i := fieldValue\<lparr>Val := SliceV es\<rparr>])
           | Return u (d', es) \<Rightarrow> Return () (d', v[i := fieldValue\<lparr>Val := SliceV es\<rparr>])))"

text \<open>
  Lines 136-159, the switch on the kind of the field itself. Line 147 calls
  \<^verbatim>\<open>v.SetBool\<close> on the struct \<open>v\<close>, not on the field: the setter demands kind
  \<^verbatim>\<open>Bool\<close> and panics with the kind of \<open>v\<close>. \<^verbatim>\<open>SetString\<close> on a field of kind
  \<^verbatim>\<open>Interface\<close> panics as above. The last branch writes the error slot directly.
\<close>

definition value_scalar ::
  "(nat \<Rightarrow> string \<Rightarrow> 'f option) \<Rightarrow> rtype \<Rightarrow> string list \<Rightarrow> nat
     \<Rightarrow> decodeState \<times> 'f field list \<Rightarrow> (unit, decodeState \<times> 'f field list) outcome" where
  "value_scalar pf t dataV i s =
     (case s of (d, v) \<Rightarrow>
        let fieldValue = v ! i; k = Kind fieldValue; x = dataV ! 0 in
        if k \<in> set int_kinds then
          Return () (d, v[i := fieldValue\<lparr>Val := SetInt k (fst (ParseInt x))\<rparr>])
        else if k \<in> set uint_kinds then
          (case ParseUint x of
             (intV, None) \<Rightarrow> Return () (d, v[i := fieldValue\<lparr>Val := SetUint k intV\<rparr>])
           | (intV, Some err) \<Rightarrow>
               Return () (saveError d (LoadTypeError (''number '' @ x) t [] []),
                          v[i := fieldValue\<lparr>Val := SetUint k intV\<rparr>]))
        else if k = KBool then
          Panic (ValueError ''reflect.Value.SetBool'' (type_Kind t)) s
        else if k \<in> set float_kinds then
          (case pf (Bits k) x of
             None \<Rightarrow> Return () (saveError d (LoadTypeError (''number '' @ x) t [] []), v)
           | Some n \<Rightarrow> Return () (d, v[i := fieldValue\<lparr>Val := FloatV n\<rparr>]))
        else if k = KString then
          Return () (d, v[i := fieldValue\<lparr>Val := StringV x\<rparr>])
        else if k = KInterface then
          Panic (ValueError ''reflect.Value.SetString'' KInterface) s
        else Return () (d\<lparr>savedError := Some errInvalidValue\<rparr>, v))"

text \<open>
  The body of the field loop (lines 87-159) for position \<open>i\<close> and its lookup key. Each
  \<^verbatim>\<open>continue\<close> returns the state as it is.
\<close>

definition value_field ::
  "(nat \<Rightarrow> string \<Rightarrow> 'f option) \<Rightarrow> rtype \<Rightarrow> nat \<times> string
     \<Rightarrow> decodeState \<times> 'f field list \<Rightarrow> (unit, decodeState \<times> 'f field list) outcome" where
  "value_field pf t ia s =
     (case ia of (i, fieldAliasName) \<Rightarrow>
        case data (fst s) fieldAliasName of
          None \<Rightarrow> Return () s
        | Some dataV \<Rightarrow>
            if CanSet (snd s ! i) then
              (case (if Kind (snd s ! i) = KSlice then value_slice pf t dataV i s
                     else Return () s) of
                 Panic p s' \<Rightarrow> Panic p s'
               | Return u s' \<Rightarrow>
                   if length dataV < 1 then Return () s'
                   else if dataV ! 0 = ''null'' then Return () s'
                   else value_scalar pf t dataV i s')
            else Return () s)"

text \<open>Lines 73-84: the lookup key of every field.\<close>

definition fieldAliasNames :: "'f field list \<Rightarrow> string list" where
  "fieldAliasNames v =
     map (\<lambda>field. let aliasName = Tag field in
                   if aliasName = [] then Name field else aliasName) v"

text \<open>
  \<^verbatim>\<open>decodeState.value\<close> (lines 66-163) on the pointee of type \<open>t\<close> with fields \<open>v\<close>;
  the result is the error the method returns.
\<close>

definition decodeState_value ::
  "(nat \<Rightarrow> string \<Rightarrow> 'f option) \<Rightarrow> rtype \<Rightarrow> decodeState \<times> 'f field list
     \<Rightarrow> (error option, decodeState \<times> 'f field list) outcome" where
  "decodeState_value pf t s =
     (if type_Kind t = KStruct then
        (case foreach (value_field pf t) (enumerate 0 (fieldAliasNames (snd s))) s of
           Panic p s' \<Rightarrow> Panic p s'
         | Return u s' \<Rightarrow> Return None s')
      else Return (Some errInvalidValue) s)"

text \<open>
  \<^verbatim>\<open>decodeState.parse\<close> (lines 53-64). The test of line 55 holds for the first three
  shapes of the destination and fails for a pointer that is not nil.
\<close>

fun parse ::
  "(nat \<Rightarrow> string \<Rightarrow> 'f option) \<Rightarrow> decodeState \<Rightarrow> 'f dest
     \<Rightarrow> (error option, decodeState \<times> 'f dest) outcome" where
  "parse pf d NilInterface = Return (Some (InvalidLoadError None)) (d, NilInterface)"
| "parse pf d (NonPointer ty) = Return (Some (InvalidLoadError (Some ty))) (d, NonPointer ty)"
| "parse pf d (NilPointer ty) = Return (Some (InvalidLoadError (Some ty))) (d, NilPointer ty)"
| "parse pf d (Pointer t v) =
     (case decodeState_value pf t (d, v) of
        Panic p (d', v') \<Rightarrow> Panic p (d', Pointer t v')
      | Return (Some err) (d', v') \<Rightarrow> Return (Some (addErrorContext d' err)) (d', Pointer t v')
      | Return None (d', v') \<Rightarrow> Return (savedError d') (d', Pointer t v'))"

text \<open>\<^verbatim>\<open>Load\<close> (form.go, lines 7-11); the session is local to the call.\<close>

definition Load ::
  "(nat \<Rightarrow> string \<Rightarrow> 'f option) \<Rightarrow> (string \<rightharpoonup> string list) \<Rightarrow> 'f dest
     \<Rightarrow> (error option, 'f dest) outcome" where
  "Load pf dat v =
     (case parse pf (init \<lparr>data = Map.empty, savedError = None\<rparr> dat) v of
        Panic p (d, v') \<Rightarrow> Panic p v'
      | Return err (d, v') \<Rightarrow> Return err v')"

text \<open>The fields of a destination, for stating what a call left in it.\<close>

fun fields :: "'f dest \<Rightarrow> 'f field list" where
  "fields (Pointer t v) = v"
| "fields _ = []"

section \<open>Notions used to state the properties\<close>

text \<open>What the decoder never changes in a field: everything but its content.\<close>

definition static :: "'f field \<Rightarrow> string \<times> string \<times> bool \<times> kind \<times> kind" where
  "static f = (Name f, Tag f, CanSet f, Kind f, Elem f)"

text \<open>
  \<open>overwrites dat key f\<close>: the walk, at a field \<open>f\<close> with lookup key \<open>key\<close>, reaches the
  last branch of the switch of lines 136-159, which writes the error slot directly (line
  158). That needs the key present with a first value other than \<^verbatim>\<open>"null"\<close>, a
  settable field, and a kind that no \<^verbatim>\<open>case\<close> of the switch names.
\<close>

definition overwrites :: "(string \<rightharpoonup> string list) \<Rightarrow> string \<Rightarrow> 'f field \<Rightarrow> bool" where
  "overwrites dat key f =
     (case dat key of
        None \<Rightarrow> False
      | Some [] \<Rightarrow> False
      | Some (x # xs) \<Rightarrow>
          CanSet f \<and> x \<noteq> ''null'' \<and>
          Kind f \<notin> set (int_kinds @ uint_kinds @ float_kinds @ [KBool, KString, KInterface]))"

text \<open>
  Concrete destinations. \<open>testStatusObj\<close> is the struct of the package's test, with its
  two string fields, the second one tagged \<^verbatim>\<open>request:"type"\<close>. \<open>T\<close> is some other
  struct type, \<open>exported n k ek x\<close> an exported field \<open>n\<close> without tag, of kind \<open>k\<close>
  (element kind \<open>ek\<close>) and content \<open>x\<close>. None of the examples has a floating-point field,
  and \<open>noFloat\<close> is the parameter they pass for the float parser.
\<close>

definition testStatusObj :: rtype where
  "testStatusObj = \<lparr>type_Kind = KStruct, type_String = ''form.testStatusObj''\<rparr>"

definition testStatusObj_fields :: "string \<Rightarrow> string \<Rightarrow> unit field list" where
  "testStatusObj_fields status typ =
     [\<lparr>Name = ''Status'', Tag = [], CanSet = True, Kind = KString, Elem = KInvalid,
        Val = StringV status\<rparr>,
      \<lparr>Name = ''Type'', Tag = ''type'', CanSet = True, Kind = KString, Elem = KInvalid,
        Val = StringV typ\<rparr>]"

definition T :: rtype where
  "T = \<lparr>type_Kind = KStruct, type_String = ''main.T''\<rparr>"

definition exported :: "string \<Rightarrow> kind \<Rightarrow> kind \<Rightarrow> unit val \<Rightarrow> unit field" where
  "exported n k ek x = \<lparr>Name = n, Tag = [], CanSet = True, Kind = k, Elem = ek, Val = x\<rparr>"

definition noFloat :: "nat \<Rightarrow> string \<Rightarrow> unit option" where
  "noFloat bits s = None"

section \<open>Loops\<close>

lemma foreach_append:
  "foreach body (xs @ ys) s =
     (case foreach body xs s of Panic p s' \<Rightarrow> Panic p s' | Return u s' \<Rightarrow> foreach body ys s')"
  by (induction xs arbitrary: s) (auto split: outcome.splits)

lemma foreach_invariant:
  assumes "I s" and "\<And>x s. x \<in> set xs \<Longrightarrow> I s \<Longrightarrow> I (state_of (body x s))"
  shows "I (state_of (foreach body xs s))"
  using assms
proof (induction xs arbitrary: s)
  case Nil
  then show ?case by simp
next
  case (Cons x xs)
  have step: "I (state_of (body x s))" using Cons.prems by simp
  show ?case
  proof (cases "body x s")
    case (Panic p s')
    with step show ?thesis by simp
  next
    case (Return u s')
    with step have "I s'" by simp
    then have "I (state_of (foreach body xs s'))"
      using Cons.prems(2) by (intro Cons.IH) auto
    with Return show ?thesis by simp
  qed
qed

lemma foreach_establish:
  assumes "foreach body xs s = Return u s'" and "x \<in> set xs" and "I s"
    and "\<And>y s. y \<in> set xs \<Longrightarrow> I s \<Longrightarrow> I (state_of (body y s))"
    and "\<And>s r s'. I s \<Longrightarrow> body x s = Return r s' \<Longrightarrow> Q s'"
    and "\<And>y s r s'. y \<in> set xs \<Longrightarrow> I s \<Longrightarrow> Q s \<Longrightarrow> body y s = Return r s' \<Longrightarrow> Q s'"
  shows "Q s'"
proof -
  have "foreach body ys s = Return u s' \<Longrightarrow> set ys \<subseteq> set xs \<Longrightarrow> I s \<Longrightarrow> (x \<in> set ys \<or> Q s) \<Longrightarrow> Q s'"
    for ys s
  proof (induction ys arbitrary: s)
    case Nil
    then show ?case by simp
  next
    case (Cons y ys)
    from Cons.prems(1) obtain r s1 where step: "body y s = Return r s1"
      and rest: "foreach body ys s1 = Return u s'"
      by (auto split: outcome.splits)
    have y: "y \<in> set xs" using Cons.prems(2) by simp
    have "I (state_of (body y s))" using assms(4) [OF y Cons.prems(3)] .
    with step have I1: "I s1" by simp
    have "x \<in> set ys \<or> Q s1"
    proof (cases "Q s")
      case True
      then show ?thesis using assms(6) [OF y Cons.prems(3) True step] by simp
    next
      case False
      with Cons.prems(4) have "x = y \<or> x \<in> set ys" by auto
      then show ?thesis using assms(5) [OF Cons.prems(3)] step by auto
    qed
    then show ?case using Cons.IH [OF rest _ I1] Cons.prems(2) by simp
  qed
  from this [of xs s] assms(1,2,3) show ?thesis by simp
qed

lemma value_elem_keeps:
  "case state_of (value_elem pf t ek dataV i (d, es)) of
     (d', es') \<Rightarrow> data d' = data d \<and> length es' = length es \<and>
                  (\<forall>e. savedError d = Some e \<longrightarrow> savedError d' = Some e)"
  by (simp add: value_elem_def index_def saveError_def split: prod.splits option.splits)

lemma elem_loop_keeps:
  fixes es :: "'f val list"
  shows "case state_of (foreach (value_elem pf t ek dataV) js (d, es)) of
     (d', es') \<Rightarrow> data d' = data d \<and> length es' = length es \<and>
                  (\<forall>e. savedError d = Some e \<longrightarrow> savedError d' = Some e)"
proof -
  let ?I = "\<lambda>s. case s of (d', es') \<Rightarrow> data d' = data d \<and> length es' = length es \<and>
                  (\<forall>e. savedError d = Some e \<longrightarrow> savedError d' = Some e)"
  have "?I (state_of (foreach (value_elem pf t ek dataV) js (d, es)))"
  proof (rule foreach_invariant)
    show "?I (d, es)" by simp
  next
    fix x and s :: "decodeState \<times> 'f val list" assume "?I s"
    then show "?I (state_of (value_elem pf t ek dataV x s))"
      using value_elem_keeps [where pf = pf and t = t and ek = ek and dataV = dataV and i = x
          and d = "fst s" and es = "snd s"]
      by (auto split: prod.splits)
  qed
  then show ?thesis .
qed

section \<open>One step of the field loop\<close>

lemma kinds_distinct:
  "k \<in> set uint_kinds \<Longrightarrow> k \<notin> set int_kinds"
  "k \<in> set float_kinds \<Longrightarrow> k \<notin> set int_kinds"
  "k \<in> set float_kinds \<Longrightarrow> k \<notin> set uint_kinds"
  "k \<in> set float_kinds \<Longrightarrow> k \<noteq> KBool"
  "k \<in> set uint_kinds \<Longrightarrow> k \<noteq> KBool"
  "k \<in> set int_kinds \<Longrightarrow> k \<noteq> KBool"
  by (auto simp: int_kinds_def uint_kinds_def float_kinds_def)

lemma kinds_const [simp]:
  "KBool \<notin> set int_kinds" "KBool \<notin> set uint_kinds" "KBool \<notin> set float_kinds"
  "KString \<notin> set int_kinds" "KString \<notin> set uint_kinds" "KString \<notin> set float_kinds"
  "KInterface \<notin> set int_kinds" "KInterface \<notin> set uint_kinds" "KInterface \<notin> set float_kinds"
  "KSlice \<notin> set int_kinds" "KSlice \<notin> set uint_kinds" "KSlice \<notin> set float_kinds"
  by (simp_all add: int_kinds_def uint_kinds_def float_kinds_def)

lemma value_scalar_int:
  "Kind (v ! i) \<in> set int_kinds \<Longrightarrow>
   value_scalar pf t dataV i (d, v) =
     Return () (d, v[i := (v ! i)\<lparr>Val := SetInt (Kind (v ! i)) (fst (ParseInt (dataV ! 0)))\<rparr>])"
  by (simp add: value_scalar_def Let_def)

lemma value_scalar_uint:
  "Kind (v ! i) \<in> set uint_kinds \<Longrightarrow>
   value_scalar pf t dataV i (d, v) =
     Return ()
       (case snd (ParseUint (dataV ! 0)) of
          None \<Rightarrow> d
        | Some err \<Rightarrow> saveError d (LoadTypeError (''number '' @ dataV ! 0) t [] []),
        v[i := (v ! i)\<lparr>Val := SetUint (Kind (v ! i)) (fst (ParseUint (dataV ! 0)))\<rparr>])"
  by (simp add: value_scalar_def Let_def kinds_distinct split: prod.splits option.splits)

lemma value_scalar_bool:
  "Kind (v ! i) = KBool \<Longrightarrow>
   value_scalar pf t dataV i (d, v) =
     Panic (ValueError ''reflect.Value.SetBool'' (type_Kind t)) (d, v)"
  by (simp add: value_scalar_def Let_def)

lemma value_scalar_float:
  "Kind (v ! i) \<in> set float_kinds \<Longrightarrow>
   value_scalar pf t dataV i (d, v) =
     (case pf (Bits (Kind (v ! i))) (dataV ! 0) of
        None \<Rightarrow> Return () (saveError d (LoadTypeError (''number '' @ dataV ! 0) t [] []), v)
      | Some n \<Rightarrow> Return () (d, v[i := (v ! i)\<lparr>Val := FloatV n\<rparr>]))"
  by (simp add: value_scalar_def Let_def kinds_distinct)

lemma value_scalar_string:
  "Kind (v ! i) = KString \<Longrightarrow>
   value_scalar pf t dataV i (d, v) = Return () (d, v[i := (v ! i)\<lparr>Val := StringV (dataV ! 0)\<rparr>])"
  by (simp add: value_scalar_def Let_def)

lemma value_scalar_interface:
  "Kind (v ! i) = KInterface \<Longrightarrow>
   value_scalar pf t dataV i (d, v) =
     Panic (ValueError ''reflect.Value.SetString'' KInterface) (d, v)"
  by (simp add: value_scalar_def Let_def)

lemma value_scalar_other:
  "Kind (v ! i) \<notin> set (int_kinds @ uint_kinds @ float_kinds @ [KBool, KString, KInterface]) \<Longrightarrow>
   value_scalar pf t dataV i (d, v) = Return () (d\<lparr>savedError := Some errInvalidValue\<rparr>, v)"
  by (simp add: value_scalar_def Let_def)

lemma kind_branches:
  obtains (int) "k \<in> set int_kinds" | (uint) "k \<in> set uint_kinds" | (bool) "k = KBool"
  | (float) "k \<in> set float_kinds" | (string) "k = KString" | (interface) "k = KInterface"
  | (other) "k \<notin> set (int_kinds @ uint_kinds @ float_kinds @ [KBool, KString, KInterface])"
  by auto

lemma value_scalar_keeps:
  fixes v :: "'f field list"
  shows "case state_of (value_scalar pf t dataV i (d, v)) of
     (d', v') \<Rightarrow> data d' = data d \<and>
                  (v' = v \<or> (\<exists>x. Kind (v ! i) \<noteq> KSlice \<and> v' = v[i := (v ! i)\<lparr>Val := x\<rparr>]))"
proof (cases "Kind (v ! i)" rule: kind_branches)
  case int
  then have "Kind (v ! i) \<noteq> KSlice" by auto
  with int show ?thesis by (auto simp: value_scalar_int)
next
  case uint
  then have "Kind (v ! i) \<noteq> KSlice" by auto
  with uint show ?thesis
    by (auto simp: value_scalar_uint saveError_def split: option.splits)
next
  case bool
  then show ?thesis by (simp add: value_scalar_bool)
next
  case float
  then have "Kind (v ! i) \<noteq> KSlice" by auto
  with float show ?thesis
    by (auto simp: value_scalar_float saveError_def split: option.splits)
next
  case string
  then show ?thesis by (auto simp: value_scalar_string)
next
  case interface
  then show ?thesis by (simp add: value_scalar_interface)
next
  case other
  then show ?thesis by (simp add: value_scalar_other)
qed


lemma saveError_Some: "savedError d = Some e \<Longrightarrow> saveError d err = d"
  by (simp add: saveError_def)

lemma saveError_None: "savedError d = None \<Longrightarrow> saveError d err = d\<lparr>savedError := Some err\<rparr>"
  by (simp add: saveError_def addErrorContext_def)

lemma value_slice_keeps:
  fixes v :: "'f field list"
  shows "case state_of (value_slice pf t dataV i (d, v)) of
     (d', v') \<Rightarrow> data d' = data d \<and>
                  (\<forall>e. savedError d = Some e \<longrightarrow> savedError d' = Some e) \<and>
                  (v' = v \<or> (\<exists>es. length es = Len (v ! i) \<and> v' = v[i := (v ! i)\<lparr>Val := SliceV es\<rparr>]))"
proof (cases "Len (v ! i) = 0")
  case True
  then show ?thesis by (simp add: value_slice_def)
next
  case False
  let ?r = "foreach (value_elem pf t (Elem (v ! i)) dataV) [0 ..< Len (v ! i)] (d, elems (Val (v ! i)))"
  obtain d' es where st: "state_of ?r = (d', es)" by fastforce
  have k: "data d' = data d \<and> length es = Len (v ! i) \<and>
           (\<forall>e. savedError d = Some e \<longrightarrow> savedError d' = Some e)"
    using elem_loop_keeps [where pf = pf and t = t and ek = "Elem (v ! i)" and dataV = dataV
        and js = "[0 ..< Len (v ! i)]" and d = d and es = "elems (Val (v ! i))"] st
    by (simp add: Len_def)
  show ?thesis
  proof (cases ?r)
    case (Panic p s')
    with st have "s' = (d', es)" by simp
    with Panic False k show ?thesis by (auto simp: value_slice_def Let_def)
  next
    case (Return u s')
    with st have "s' = (d', es)" by simp
    with Return False k show ?thesis by (auto simp: value_slice_def Let_def)
  qed
qed

lemma value_field_absent:
  "data d a = None \<Longrightarrow> value_field pf t (i, a) (d, v) = Return () (d, v)"
  by (simp add: value_field_def)

lemma value_field_unsettable:
  "\<not> CanSet (v ! i) \<Longrightarrow> value_field pf t (i, a) (d, v) = Return () (d, v)"
  by (simp add: value_field_def split: option.splits)

lemma value_field_nonslice:
  "data d a = Some dataV \<Longrightarrow> CanSet (v ! i) \<Longrightarrow> Kind (v ! i) \<noteq> KSlice \<Longrightarrow>
   value_field pf t (i, a) (d, v) =
     (if length dataV < 1 then Return () (d, v)
      else if dataV ! 0 = ''null'' then Return () (d, v)
      else value_scalar pf t dataV i (d, v))"
  by (simp add: value_field_def)

lemma value_field_slice:
  "data d a = Some dataV \<Longrightarrow> CanSet (v ! i) \<Longrightarrow> Kind (v ! i) = KSlice \<Longrightarrow>
   value_field pf t (i, a) (d, v) =
     (case value_slice pf t dataV i (d, v) of
        Panic p s' \<Rightarrow> Panic p s'
      | Return u s' \<Rightarrow>
          if length dataV < 1 then Return () s'
          else if dataV ! 0 = ''null'' then Return () s'
          else Return () ((fst s')\<lparr>savedError := Some errInvalidValue\<rparr>, snd s'))"
proof -
  obtain d1 v1 where s1: "state_of (value_slice pf t dataV i (d, v)) = (d1, v1)" by fastforce
  assume a: "data d a = Some dataV" "CanSet (v ! i)" and k: "Kind (v ! i) = KSlice"
  have "v1 = v \<or> (\<exists>es. length es = Len (v ! i) \<and> v1 = v[i := (v ! i)\<lparr>Val := SliceV es\<rparr>])"
    using value_slice_keeps [where pf = pf and t = t and dataV = dataV and i = i and d = d and v = v] s1
    by auto
  then have "Kind (v1 ! i) = KSlice"
    using k by (cases "i < length v") (auto simp: list_update_beyond)
  then have "value_scalar pf t dataV i (d1, v1) = Return () (d1\<lparr>savedError := Some errInvalidValue\<rparr>, v1)"
    by (simp add: value_scalar_other)
  with a k s1 show ?thesis
    by (cases "value_slice pf t dataV i (d, v)") (auto simp: value_field_def)
qed

lemma value_field_keeps:
  fixes v :: "'f field list"
  shows "case state_of (value_field pf t (i, a) (d, v)) of
     (d', v') \<Rightarrow> data d' = data d \<and>
                  (\<exists>f'. v' = v[i := f'] \<and> static f' = static (v ! i) \<and>
                        (Kind (v ! i) = KSlice \<longrightarrow> Len f' = Len (v ! i)))"
proof -
  have same: "\<exists>f'. v = v[i := f'] \<and> static f' = static (v ! i) \<and>
                (Kind (v ! i) = KSlice \<longrightarrow> Len f' = Len (v ! i))"
    by (rule exI [of _ "v ! i"]) simp
  consider (absent) "data d a = None" | (unsettable) "\<not> CanSet (v ! i)"
    | (nonslice) dataV where "data d a = Some dataV" "CanSet (v ! i)" "Kind (v ! i) \<noteq> KSlice"
    | (slice) dataV where "data d a = Some dataV" "CanSet (v ! i)" "Kind (v ! i) = KSlice"
    by (cases "data d a") auto
  then show ?thesis
  proof cases
    case absent
    with same show ?thesis by (simp add: value_field_absent)
  next
    case unsettable
    with same show ?thesis by (simp add: value_field_unsettable)
  next
    case nonslice
    have "case state_of (value_scalar pf t dataV i (d, v)) of
                (d', v') \<Rightarrow> data d' = data d \<and>
                  (\<exists>f'. v' = v[i := f'] \<and> static f' = static (v ! i) \<and>
                        (Kind (v ! i) = KSlice \<longrightarrow> Len f' = Len (v ! i)))"
      using value_scalar_keeps [where pf = pf and t = t and dataV = dataV and i = i and d = d and v = v]
        same nonslice(3)
      by (auto simp: static_def split: prod.splits)
    with nonslice same show ?thesis by (simp add: value_field_nonslice)
  next
    case slice
    obtain d1 v1 where s1: "state_of (value_slice pf t dataV i (d, v)) = (d1, v1)" by fastforce
    have k1: "data d1 = data d"
      and v1: "v1 = v \<or> (\<exists>es. length es = Len (v ! i) \<and> v1 = v[i := (v ! i)\<lparr>Val := SliceV es\<rparr>])"
      using value_slice_keeps [where pf = pf and t = t and dataV = dataV and i = i and d = d and v = v] s1
      by auto
    from v1 have sh1: "\<exists>f'. v1 = v[i := f'] \<and> static f' = static (v ! i) \<and>
                (Kind (v ! i) = KSlice \<longrightarrow> Len f' = Len (v ! i))"
    proof
      assume "v1 = v" with same show ?thesis by simp
    next
      assume "\<exists>es. length es = Len (v ! i) \<and> v1 = v[i := (v ! i)\<lparr>Val := SliceV es\<rparr>]"
      then obtain es where "length es = Len (v ! i)" "v1 = v[i := (v ! i)\<lparr>Val := SliceV es\<rparr>]"
        by blast
      then show ?thesis
        by (intro exI [of _ "(v ! i)\<lparr>Val := SliceV es\<rparr>"]) (simp add: static_def Len_def)
    qed
    with slice s1 k1 show ?thesis
      by (cases "value_slice pf t dataV i (d, v)") (auto simp: value_field_slice)
  qed
qed

lemma overwrites_static:
  "static f = static f' \<Longrightarrow> overwrites dat a f = overwrites dat a f'"
  by (auto simp: overwrites_def static_def split: option.splits list.splits)

lemma value_field_error:
  assumes "value_field pf t (i, a) (d, v) = Return u (d', v')" and "savedError d = Some e"
  shows "savedError d' = (if overwrites (data d) a (v ! i) then Some errInvalidValue else Some e)"
proof -
  consider (absent) "data d a = None" | (unsettable) "\<not> CanSet (v ! i)"
    | (nonslice) dataV where "data d a = Some dataV" "CanSet (v ! i)" "Kind (v ! i) \<noteq> KSlice"
    | (slice) dataV where "data d a = Some dataV" "CanSet (v ! i)" "Kind (v ! i) = KSlice"
    by (cases "data d a") auto
  then show ?thesis
  proof cases
    case absent
    with assms show ?thesis by (simp add: value_field_absent overwrites_def)
  next
    case unsettable
    with assms show ?thesis
      by (simp add: value_field_unsettable overwrites_def split: option.splits list.splits)
  next
    case nonslice
    show ?thesis
    proof (cases "length dataV < 1 \<or> dataV ! 0 = ''null''")
      case True
      with assms nonslice show ?thesis
        by (cases dataV) (auto simp: value_field_nonslice overwrites_def)
    next
      case False
      then obtain x xs where dv: "dataV = x # xs" "x \<noteq> ''null''" by (cases dataV) auto
      with assms(1) nonslice have sc: "value_scalar pf t dataV i (d, v) = Return u (d', v')"
        by (simp add: value_field_nonslice)
      have ow: "overwrites (data d) a (v ! i) \<longleftrightarrow>
                  Kind (v ! i) \<notin> set (int_kinds @ uint_kinds @ float_kinds @ [KBool, KString, KInterface])"
        using nonslice dv by (simp add: overwrites_def)
      show ?thesis
      proof (cases "Kind (v ! i)" rule: kind_branches)
        case int
        with sc ow assms(2) show ?thesis by (auto simp: value_scalar_int)
      next
        case uint
        with sc ow assms(2) show ?thesis
          by (auto simp: value_scalar_uint saveError_Some split: option.splits)
      next
        case bool
        with sc show ?thesis by (simp add: value_scalar_bool)
      next
        case float
        with sc ow assms(2) show ?thesis
          by (auto simp: value_scalar_float saveError_Some split: option.splits)
      next
        case string
        with sc ow assms(2) show ?thesis by (auto simp: value_scalar_string)
      next
        case interface
        with sc show ?thesis by (simp add: value_scalar_interface)
      next
        case other
        with sc ow show ?thesis by (auto simp: value_scalar_other)
      qed
    qed
  next
    case slice
    obtain d1 v1 where s1: "state_of (value_slice pf t dataV i (d, v)) = (d1, v1)" by fastforce
    have e1: "savedError d1 = Some e"
      using value_slice_keeps [where pf = pf and t = t and dataV = dataV and i = i and d = d and v = v]
        s1 assms(2)
      by auto
    have ow: "overwrites (data d) a (v ! i) \<longleftrightarrow> \<not> (length dataV < 1 \<or> dataV ! 0 = ''null'')"
      using slice by (cases dataV) (auto simp: overwrites_def)
    from assms(1) slice s1 e1 ow show ?thesis
      by (cases "value_slice pf t dataV i (d, v)") (auto simp: value_field_slice split: if_splits)
  qed
qed

section \<open>The whole walk\<close>

lemma nth_update_static:
  "static f' = static (w ! i) \<Longrightarrow> static (w[i := f'] ! j) = static (w ! j)"
  by (cases "i < length w") (auto simp: nth_list_update list_update_beyond)

lemma nth_update_Len:
  "Kind (w ! i) = KSlice \<longrightarrow> Len f' = Len (w ! i) \<Longrightarrow> Kind (w ! j) = KSlice \<Longrightarrow>
   Len (w[i := f'] ! j) = Len (w ! j)"
  by (cases "i < length w") (auto simp: nth_list_update list_update_beyond)

text \<open>What one step of the field loop keeps.\<close>

lemma value_field_step:
  fixes w :: "'f field list"
  assumes "state_of (value_field pf t (i, a) (d, w)) = (d', w')"
  shows "data d' = data d" and "length w' = length w"
    and "static (w' ! j) = static (w ! j)"
    and "Kind (w ! j) = KSlice \<Longrightarrow> Len (w' ! j) = Len (w ! j)"
    and "j \<noteq> i \<Longrightarrow> w' ! j = w ! j"
proof -
  from value_field_keeps [where pf = pf and t = t and i = i and a = a and d = d and v = w] assms
  obtain f' where d: "data d' = data d" and w': "w' = w[i := f']"
    and st: "static f' = static (w ! i)" and len: "Kind (w ! i) = KSlice \<longrightarrow> Len f' = Len (w ! i)"
    by auto
  show "data d' = data d" by (rule d)
  show "length w' = length w" using w' by simp
  show "static (w' ! j) = static (w ! j)" using w' st by (simp add: nth_update_static)
  show "Kind (w ! j) = KSlice \<Longrightarrow> Len (w' ! j) = Len (w ! j)"
    using w' len by (simp add: nth_update_Len)
  show "j \<noteq> i \<Longrightarrow> w' ! j = w ! j" using w' by simp
qed

lemma walk_keeps:
  fixes v :: "'f field list"
  assumes "state_of (foreach (value_field pf t) xs (d, v)) = (d', v')"
  shows "data d' = data d" and "length v' = length v"
    and "static (v' ! j) = static (v ! j)"
    and "Kind (v ! j) = KSlice \<Longrightarrow> Len (v' ! j) = Len (v ! j)"
    and "j \<notin> fst ` set xs \<Longrightarrow> v' ! j = v ! j"
proof -
  let ?I = "\<lambda>s :: decodeState \<times> 'f field list.
      data (fst s) = data d \<and> length (snd s) = length v \<and>
      (\<forall>j. static (snd s ! j) = static (v ! j)) \<and>
      (\<forall>j. Kind (v ! j) = KSlice \<longrightarrow> Len (snd s ! j) = Len (v ! j)) \<and>
      (\<forall>j. j \<notin> fst ` set xs \<longrightarrow> snd s ! j = v ! j)"
  have "?I (state_of (foreach (value_field pf t) xs (d, v)))"
  proof (rule foreach_invariant)
    show "?I (d, v)" by simp
  next
    fix x and s :: "decodeState \<times> 'f field list"
    assume x: "x \<in> set xs" and I: "?I s"
    obtain d1 w1 where s1: "state_of (value_field pf t (fst x, snd x) (fst s, snd s)) = (d1, w1)"
      by fastforce
    note k = value_field_step [OF s1]
    have "static (snd s ! j) = static (v ! j)" for j using I by simp
    then have kind: "Kind (snd s ! j) = Kind (v ! j)" for j
      by (simp add: static_def)
    have "data d1 = data d" using k(1) I by simp
    moreover have "length w1 = length v" using k(2) I by simp
    moreover have "static (w1 ! j) = static (v ! j)" for j using k(3) [where j = j] I by simp
    moreover have "Kind (v ! j) = KSlice \<longrightarrow> Len (w1 ! j) = Len (v ! j)" for j
      using k(4) [where j = j] kind [of j] I by simp
    moreover have "j \<notin> fst ` set xs \<longrightarrow> w1 ! j = v ! j" for j
    proof
      assume j: "j \<notin> fst ` set xs"
      with x have "j \<noteq> fst x" by auto
      then show "w1 ! j = v ! j" using k(5) [where j = j] I j by simp
    qed
    ultimately show "?I (state_of (value_field pf t x s))" using s1 by simp
  qed
  with assms show "data d' = data d" and "length v' = length v"
    and "static (v' ! j) = static (v ! j)"
    and "Kind (v ! j) = KSlice \<Longrightarrow> Len (v' ! j) = Len (v ! j)"
    and "j \<notin> fst ` set xs \<Longrightarrow> v' ! j = v ! j"
    by simp_all
qed

text \<open>The error slot along the rest of the walk, once it holds an error.\<close>

lemma walk_error:
  fixes v :: "'f field list"
  assumes "foreach (value_field pf t) xs (d, v) = Return u (d', v')" and "savedError d = Some e"
  shows "savedError d' =
           (if \<exists>x\<in>set xs. overwrites (data d) (snd x) (v ! fst x) then Some errInvalidValue
            else Some e)"
  using assms
proof (induction xs arbitrary: d v e)
  case Nil
  then show ?case by simp
next
  case (Cons x xs)
  from Cons.prems(1) obtain r d1 v1
    where step: "value_field pf t (fst x, snd x) (d, v) = Return r (d1, v1)"
      and rest: "foreach (value_field pf t) xs (d1, v1) = Return u (d', v')"
    by (auto split: outcome.splits)
  have e1: "savedError d1 =
      (if overwrites (data d) (snd x) (v ! fst x) then Some errInvalidValue else Some e)"
    by (rule value_field_error [OF step Cons.prems(2)])
  from step have st: "state_of (value_field pf t (fst x, snd x) (d, v)) = (d1, v1)" by simp
  have dat: "data d1 = data d" by (rule value_field_step(1) [OF st])
  have ow: "overwrites (data d1) a (v1 ! j) = overwrites (data d) a (v ! j)" for a j
    using overwrites_static [OF value_field_step(3) [OF st, where j = j]] dat by simp
  show ?case
  proof (cases "overwrites (data d) (snd x) (v ! fst x)")
    case True
    with e1 have "savedError d1 = Some errInvalidValue" by simp
    from Cons.IH [OF rest this] True show ?thesis by simp
  next
    case False
    with e1 have "savedError d1 = Some e" by simp
    from Cons.IH [OF rest this] False show ?thesis by (simp add: ow)
  qed
qed

lemma walk_split_error:
  fixes v :: "'f field list"
  assumes "foreach (value_field pf t) (ys @ zs) (d, v) = Return u (d', v')"
    and "foreach (value_field pf t) ys (d, v) = Return u1 (d1, v1)"
    and "savedError d1 = Some e"
  shows "savedError d' =
           (if \<exists>x\<in>set zs. overwrites (data d) (snd x) (v ! fst x) then Some errInvalidValue
            else Some e)"
proof -
  from assms(1,2) have rest: "foreach (value_field pf t) zs (d1, v1) = Return u (d', v')"
    by (simp add: foreach_append)
  from assms(2) have st: "state_of (foreach (value_field pf t) ys (d, v)) = (d1, v1)" by simp
  have "overwrites (data d1) a (v1 ! j) = overwrites (data d) a (v ! j)" for a j
    using walk_keeps(1) [OF st] overwrites_static [OF walk_keeps(3) [OF st, where j = j]] by simp
  with walk_error [OF rest assms(3)] show ?thesis by simp
qed

text \<open>\<open>Load\<close> on a pointer, in terms of the walk.\<close>

lemma Load_struct:
  "type_Kind t = KStruct \<Longrightarrow>
   Load pf dat (Pointer t v) =
     (case foreach (value_field pf t) (enumerate 0 (fieldAliasNames v))
             (\<lparr>data = dat, savedError = None\<rparr>, v) of
        Panic p s' \<Rightarrow> Panic p (Pointer t (snd s'))
      | Return u s' \<Rightarrow> Return (savedError (fst s')) (Pointer t (snd s')))"
  by (simp add: Load_def init_def decodeState_value_def split: outcome.splits prod.splits)

lemma Load_not_struct:
  "type_Kind t \<noteq> KStruct \<Longrightarrow>
   Load pf dat (Pointer t v) = Return (Some errInvalidValue) (Pointer t v)"
  by (simp add: Load_def init_def decodeState_value_def addErrorContext_def)

lemma Load_fields:
  "type_Kind t = KStruct \<Longrightarrow>
   fields (state_of (Load pf dat (Pointer t v))) =
     snd (state_of (foreach (value_field pf t) (enumerate 0 (fieldAliasNames v))
             (\<lparr>data = dat, savedError = None\<rparr>, v)))"
  by (simp add: Load_struct split: outcome.splits)

lemma Load_Return:
  assumes "type_Kind t = KStruct" and "Load pf dat (Pointer t v) = Return err dest'"
  obtains d' v' where
    "foreach (value_field pf t) (enumerate 0 (fieldAliasNames v))
       (\<lparr>data = dat, savedError = None\<rparr>, v) = Return () (d', v')"
    and "err = savedError d'" and "dest' = Pointer t v'"
  using assms by (auto simp: Load_struct split: outcome.splits)

lemma in_walk_list:
  "x \<in> set (enumerate 0 (fieldAliasNames v)) \<longleftrightarrow>
     fst x < length v \<and> snd x = fieldAliasNames v ! fst x"
  by (auto simp: in_set_enumerate_eq fieldAliasNames_def)

section \<open>Evaluating concrete calls\<close>

lemmas Load_eval =
  Load_def init_def decodeState_value_def fieldAliasNames_def value_field_def
  value_scalar_def value_slice_def value_elem_def index_def int_kinds_def uint_kinds_def
  float_kinds_def Len_def saveError_def addErrorContext_def Let_def
  ParseUint_def ParseInt_signed_def isDigit_def maxUint64_def int64_def SetInt_def SetUint_def
  T_def testStatusObj_def testStatusObj_fields_def exported_def noFloat_def

section \<open>The destination handle\<close>

text \<open>
  C5, as amended. When the destination is a value that is not a pointer, or a nil pointer,
  \<open>Load\<close> returns an \<open>InvalidLoadError\<close> carrying the type of the destination, whose
  message reads \<^verbatim>\<open>non-pointer\<close>, respectively \<^verbatim>\<open>nil\<close>, followed by the name of the
  type. When the destination is the nil interface, which has no type, \<open>Load\<close> returns an
  \<open>InvalidLoadError\<close> without type, whose message is \<^verbatim>\<open>form: Parse(nil)\<close>. In the
  three cases the destination is left as it was.
\<close>

theorem Load_invalid_destination:
  "Load pf dat NilInterface = Return (Some (InvalidLoadError None)) NilInterface
   \<and> Error (InvalidLoadError None) = ''form: Parse(nil)''
   \<and> (type_Kind ty \<noteq> KPointer \<longrightarrow>
        Load pf dat (NonPointer ty) = Return (Some (InvalidLoadError (Some ty))) (NonPointer ty)
        \<and> Error (InvalidLoadError (Some ty)) = ''form: Parse(non-pointer '' @ type_String ty @ '')'')
   \<and> (type_Kind pty = KPointer \<longrightarrow>
        Load pf dat (NilPointer pty) = Return (Some (InvalidLoadError (Some pty))) (NilPointer pty)
        \<and> Error (InvalidLoadError (Some pty)) = ''form: Parse(nil '' @ type_String pty @ '')'')"
  by (simp add: Load_def)

theorem Load_invalid_destination_witness:
  "type_Kind T \<noteq> KPointer
   \<and> type_Kind \<lparr>type_Kind = KPointer, type_String = ''*main.T''\<rparr> = KPointer
   \<and> Load noFloat Map.empty NilInterface = Return (Some (InvalidLoadError None)) NilInterface
   \<and> Load noFloat Map.empty (NonPointer T) = Return (Some (InvalidLoadError (Some T))) (NonPointer T)
   \<and> Error (InvalidLoadError (Some T)) = ''form: Parse(non-pointer main.T)''
   \<and> Load noFloat Map.empty (NilPointer \<lparr>type_Kind = KPointer, type_String = ''*main.T''\<rparr>)
       = Return (Some (InvalidLoadError (Some \<lparr>type_Kind = KPointer, type_String = ''*main.T''\<rparr>)))
           (NilPointer \<lparr>type_Kind = KPointer, type_String = ''*main.T''\<rparr>)
   \<and> Error (InvalidLoadError (Some \<lparr>type_Kind = KPointer, type_String = ''*main.T''\<rparr>))
       = ''form: Parse(nil *main.T)''"
  using Load_invalid_destination [of noFloat Map.empty T "\<lparr>type_Kind = KPointer, type_String = ''*main.T''\<rparr>"]
  by (simp add: T_def)

text \<open>
  C5 as stated fails for the nil interface: the message \<^verbatim>\<open>form: Parse(nil)\<close> names no
  type, since there is none, and has neither the wording of a value that is not a pointer
  nor that of a nil pointer, \<^verbatim>\<open>nil\<close> followed by the name of a type.
\<close>

theorem Load_nil_interface_counterexample:
  "Load noFloat Map.empty NilInterface = Return (Some (InvalidLoadError None)) NilInterface
   \<and> Error (InvalidLoadError None) = ''form: Parse(nil)''
   \<and> take 24 (Error (InvalidLoadError None)) \<noteq> ''form: Parse(non-pointer ''
   \<and> take 16 (Error (InvalidLoadError None)) \<noteq> ''form: Parse(nil ''"
  by (simp add: Load_def)

section \<open>Fields the walk leaves alone, and fields it writes\<close>

lemma walk_keeps_field:
  fixes v :: "'f field list"
  assumes "\<And>d w. data d = dat \<Longrightarrow> w ! i = v ! i \<Longrightarrow>
             snd (state_of (value_field pf t (i, fieldAliasNames v ! i) (d, w))) ! i = w ! i"
  shows "snd (state_of (foreach (value_field pf t) (enumerate 0 (fieldAliasNames v))
                 (\<lparr>data = dat, savedError = None\<rparr>, v))) ! i = v ! i"
proof -
  let ?I = "\<lambda>s :: decodeState \<times> 'f field list. data (fst s) = dat \<and> snd s ! i = v ! i"
  have "?I (state_of (foreach (value_field pf t) (enumerate 0 (fieldAliasNames v))
                 (\<lparr>data = dat, savedError = None\<rparr>, v)))"
  proof (rule foreach_invariant)
    show "?I (\<lparr>data = dat, savedError = None\<rparr>, v)" by simp
  next
    fix x and s :: "decodeState \<times> 'f field list"
    assume x: "x \<in> set (enumerate 0 (fieldAliasNames v))" and I: "?I s"
    obtain d1 w1 where s1: "state_of (value_field pf t (fst x, snd x) (fst s, snd s)) = (d1, w1)"
      by fastforce
    have d1: "data d1 = dat" using value_field_step(1) [OF s1] I by simp
    have "w1 ! i = v ! i"
    proof (cases "fst x = i")
      case True
      with x have "snd x = fieldAliasNames v ! i" by (simp add: in_walk_list)
      with assms [of "fst s" "snd s"] I True s1 show ?thesis by simp
    next
      case False
      then show ?thesis using value_field_step(5) [OF s1, where j = i] I by simp
    qed
    with d1 s1 show "?I (state_of (value_field pf t x s))" by simp
  qed
  then show ?thesis by simp
qed

lemma walk_establish:
  fixes v :: "'f field list"
  assumes "i < length v"
    and "foreach (value_field pf t) (enumerate 0 (fieldAliasNames v))
           (\<lparr>data = dat, savedError = None\<rparr>, v) = Return u s'"
    and "\<And>d w r s1. data d = dat \<Longrightarrow> length w = length v \<Longrightarrow>
           static (w ! i) = static (v ! i) \<Longrightarrow>
           (Kind (v ! i) = KSlice \<Longrightarrow> Len (w ! i) = Len (v ! i)) \<Longrightarrow>
           value_field pf t (i, fieldAliasNames v ! i) (d, w) = Return r s1 \<Longrightarrow> Q s1"
    and "\<And>j a d w r s1. j \<noteq> i \<Longrightarrow> Q (d, w) \<Longrightarrow>
           value_field pf t (j, a) (d, w) = Return r s1 \<Longrightarrow> Q s1"
  shows "Q s'"
proof -
  let ?I = "\<lambda>s :: decodeState \<times> 'f field list.
      data (fst s) = dat \<and> length (snd s) = length v \<and>
      static (snd s ! i) = static (v ! i) \<and>
      (Kind (v ! i) = KSlice \<longrightarrow> Len (snd s ! i) = Len (v ! i))"
  let ?x = "(i, fieldAliasNames v ! i)"
  show ?thesis
  proof (rule foreach_establish [where I = ?I and x = ?x, OF assms(2)])
    show "?x \<in> set (enumerate 0 (fieldAliasNames v))" using assms(1) by (simp add: in_walk_list)
  next
    show "?I (\<lparr>data = dat, savedError = None\<rparr>, v)" by simp
  next
    fix y and s :: "decodeState \<times> 'f field list"
    assume I: "?I s"
    obtain d1 w1 where s1: "state_of (value_field pf t (fst y, snd y) (fst s, snd s)) = (d1, w1)"
      by fastforce
    have k: "Kind (snd s ! i) = Kind (v ! i)" using I by (simp add: static_def)
    from value_field_step(1,2) [OF s1] value_field_step(3) [OF s1, where j = i]
      value_field_step(4) [OF s1, where j = i] I k s1
    show "?I (state_of (value_field pf t y s))" by simp
  next
    fix s :: "decodeState \<times> 'f field list" and r s1
    assume "?I s" and "value_field pf t ?x s = Return r s1"
    then show "Q s1" using assms(3) [of "fst s" "snd s" r s1] by simp
  next
    fix y and s :: "decodeState \<times> 'f field list" and r s1
    assume y: "y \<in> set (enumerate 0 (fieldAliasNames v))" and I: "?I s" and Q: "Q s"
      and step: "value_field pf t y s = Return r s1"
    show "Q s1"
    proof (cases "fst y = i")
      case True
      with y have "y = ?x" by (simp add: in_walk_list prod_eq_iff)
      with I step show ?thesis using assms(3) [of "fst s" "snd s" r s1] by simp
    next
      case False
      with Q step show ?thesis using assms(4) [of "fst y" "fst s" "snd s" "snd y" r s1] by simp
    qed
  qed
qed

text \<open>
  C8. A field whose lookup key is absent from the mapping is left as it was, whatever else
  the call does (it may return or panic on another field). The instance below is the
  package's test case: decoding the empty mapping leaves \<^verbatim>\<open>Status = "success"\<close>.
\<close>

theorem Load_absent_key_unchanged:
  assumes "i < length v" and "dat (fieldAliasNames v ! i) = None"
  shows "fields (state_of (Load pf dat (Pointer t v))) ! i = v ! i"
proof (cases "type_Kind t = KStruct")
  case False
  then show ?thesis by (simp add: Load_not_struct)
next
  case True
  have "snd (state_of (foreach (value_field pf t) (enumerate 0 (fieldAliasNames v))
                 (\<lparr>data = dat, savedError = None\<rparr>, v))) ! i = v ! i"
    by (rule walk_keeps_field) (simp add: assms(2) value_field_absent)
  with True show ?thesis by (simp add: Load_fields)
qed

theorem Load_absent_key_unchanged_witness:
  "0 < length (testStatusObj_fields ''success'' [])
   \<and> Map.empty (fieldAliasNames (testStatusObj_fields ''success'' []) ! 0) = (None :: string list option)
   \<and> fields (state_of (Load noFloat Map.empty
         (Pointer testStatusObj (testStatusObj_fields ''success'' [])))) ! 0
       = \<lparr>Name = ''Status'', Tag = [], CanSet = True, Kind = KString, Elem = KInvalid,
          Val = StringV ''success''\<rparr>"
proof -
  have h: "0 < length (testStatusObj_fields ''success'' [])"
    by (simp add: testStatusObj_fields_def)
  from Load_absent_key_unchanged [OF h, of Map.empty noFloat testStatusObj]
  show ?thesis by (simp add: testStatusObj_fields_def)
qed

text \<open>The first value \<^verbatim>\<open>"null"\<close>.\<close>

lemma value_field_null:
  assumes "data d a = Some (''null'' # rest)" and "Kind (w ! i) \<noteq> KSlice \<or> \<not> CanSet (w ! i)"
  shows "value_field pf t (i, a) (d, w) = Return () (d, w)"
proof (cases "CanSet (w ! i)")
  case True
  with assms show ?thesis by (simp add: value_field_nonslice)
next
  case False
  then show ?thesis by (simp add: value_field_unsettable)
qed

text \<open>
  C7, as amended. The test for \<^verbatim>\<open>"null"\<close> (line 132) comes after the element loop of
  lines 98-126, so it protects every field but a settable list field: a field that is not
  a settable list field and whose key maps to a sequence starting with \<^verbatim>\<open>"null"\<close> is
  left as it was by the whole call, and its own step changes neither the error slot nor
  any field.
\<close>

theorem Load_null_unchanged:
  assumes "i < length v" and "dat (fieldAliasNames v ! i) = Some (''null'' # rest)"
    and "Kind (v ! i) \<noteq> KSlice \<or> \<not> CanSet (v ! i)"
  shows "fields (state_of (Load pf dat (Pointer t v))) ! i = v ! i
         \<and> (data d = dat \<and> w ! i = v ! i \<longrightarrow>
              value_field pf t (i, fieldAliasNames v ! i) (d, w) = Return () (d, w))"
proof
  show "fields (state_of (Load pf dat (Pointer t v))) ! i = v ! i"
  proof (cases "type_Kind t = KStruct")
    case False
    then show ?thesis by (simp add: Load_not_struct)
  next
    case True
    have "snd (state_of (foreach (value_field pf t) (enumerate 0 (fieldAliasNames v))
                   (\<lparr>data = dat, savedError = None\<rparr>, v))) ! i = v ! i"
    proof (rule walk_keeps_field)
      fix d :: decodeState and w :: "'a field list"
      assume "data d = dat" and "w ! i = v ! i"
      with assms(2,3) show "snd (state_of (value_field pf t (i, fieldAliasNames v ! i) (d, w))) ! i = w ! i"
        by (simp add: value_field_null)
    qed
    with True show ?thesis by (simp add: Load_fields)
  qed
  show "data d = dat \<and> w ! i = v ! i \<longrightarrow>
          value_field pf t (i, fieldAliasNames v ! i) (d, w) = Return () (d, w)"
    using assms(2,3) by (simp add: value_field_null)
qed

theorem Load_null_unchanged_witness:
  "1 < length (testStatusObj_fields ''success'' ''x'')
   \<and> [''type'' \<mapsto> [''null'']] (fieldAliasNames (testStatusObj_fields ''success'' ''x'') ! 1)
       = Some (''null'' # [])
   \<and> Kind (testStatusObj_fields ''success'' ''x'' ! 1) \<noteq> KSlice
   \<and> fields (state_of (Load noFloat [''type'' \<mapsto> [''null'']]
         (Pointer testStatusObj (testStatusObj_fields ''success'' ''x'')))) ! 1
       = \<lparr>Name = ''Type'', Tag = ''type'', CanSet = True, Kind = KString, Elem = KInvalid,
          Val = StringV ''x''\<rparr>"
proof -
  have h1: "1 < length (testStatusObj_fields ''success'' ''x'')"
    by (simp add: testStatusObj_fields_def)
  have h2: "[''type'' \<mapsto> [''null'']] (fieldAliasNames (testStatusObj_fields ''success'' ''x'') ! 1)
       = Some (''null'' # [])"
    by (simp add: testStatusObj_fields_def fieldAliasNames_def)
  have h3: "Kind (testStatusObj_fields ''success'' ''x'' ! 1) \<noteq> KSlice
            \<or> \<not> CanSet (testStatusObj_fields ''success'' ''x'' ! 1)"
    by (simp add: testStatusObj_fields_def)
  from Load_null_unchanged [where pf = noFloat and t = testStatusObj and i = 1
      and v = "testStatusObj_fields ''success'' ''x''" and dat = "[''type'' \<mapsto> [''null'']]"
      and rest = "[]", OF h1 h2 h3] h1 h2
  show ?thesis by (simp add: testStatusObj_fields_def)
qed

text \<open>
  C7 as stated fails for a list field: decoding \<^verbatim>\<open>{"S": ["null"]}\<close> into
  \<^verbatim>\<open>S = []string{"a"}\<close> returns no error and leaves \<^verbatim>\<open>S = []string{"null"}\<close>.
\<close>

theorem Load_null_slice_counterexample:
  "Load noFloat [''S'' \<mapsto> [''null'']]
      (Pointer T [exported ''S'' KSlice KString (SliceV [StringV ''a''])])
     = Return None (Pointer T [exported ''S'' KSlice KString (SliceV [StringV ''null''])])
   \<and> exported ''S'' KSlice KString (SliceV [StringV ''null''])
       \<noteq> exported ''S'' KSlice KString (SliceV [StringV ''a''])"
  by (simp add: Load_eval)

section \<open>List fields and boolean fields\<close>

text \<open>
  Both defects hold for every struct, not only for the two instances below: a settable
  empty list field whose key is present, or a settable boolean field whose key is present
  with a first value other than \<^verbatim>\<open>"null"\<close>, makes every call panic.
\<close>

lemma Load_empty_slice_never_returns:
  fixes v :: "'a field list"
  assumes "type_Kind t = KStruct" and "i < length v" and "Kind (v ! i) = KSlice"
    and "CanSet (v ! i)" and "Len (v ! i) = 0" and "dat (fieldAliasNames v ! i) = Some dataV"
  shows "\<not> returns (Load pf dat (Pointer t v))"
proof
  assume "returns (Load pf dat (Pointer t v))"
  then obtain err dest' where ret: "Load pf dat (Pointer t v) = Return err dest'"
    by (cases "Load pf dat (Pointer t v)") auto
  obtain d' v' where walk: "foreach (value_field pf t) (enumerate 0 (fieldAliasNames v))
       (\<lparr>data = dat, savedError = None\<rparr>, v) = Return () (d', v')"
    by (rule Load_Return [OF assms(1) ret])
  show False
  proof (rule walk_establish [where Q = "\<lambda>s. False", OF assms(2) walk])
    fix d :: decodeState and w :: "'a field list" and r s1
    assume d: "data d = dat" and "static (w ! i) = static (v ! i)"
      and len: "Kind (v ! i) = KSlice \<Longrightarrow> Len (w ! i) = Len (v ! i)"
      and st: "value_field pf t (i, fieldAliasNames v ! i) (d, w) = Return r s1"
    then have "CanSet (w ! i)" "Kind (w ! i) = KSlice" using assms(3,4) by (simp_all add: static_def)
    moreover have "Len (w ! i) = 0" using len assms(3,5) by simp
    ultimately show False using d assms(6) st
      by (simp add: value_field_slice value_slice_def)
  qed
qed

lemma Load_bool_never_returns:
  fixes v :: "'a field list"
  assumes "type_Kind t = KStruct" and "i < length v" and "Kind (v ! i) = KBool"
    and "CanSet (v ! i)" and "dat (fieldAliasNames v ! i) = Some (x # xs)" and "x \<noteq> ''null''"
  shows "\<not> returns (Load pf dat (Pointer t v))"
proof
  assume "returns (Load pf dat (Pointer t v))"
  then obtain err dest' where ret: "Load pf dat (Pointer t v) = Return err dest'"
    by (cases "Load pf dat (Pointer t v)") auto
  obtain d' v' where walk: "foreach (value_field pf t) (enumerate 0 (fieldAliasNames v))
       (\<lparr>data = dat, savedError = None\<rparr>, v) = Return () (d', v')"
    by (rule Load_Return [OF assms(1) ret])
  show False
  proof (rule walk_establish [where Q = "\<lambda>s. False", OF assms(2) walk])
    fix d :: decodeState and w :: "'a field list" and r s1
    assume d: "data d = dat" and "static (w ! i) = static (v ! i)"
      and st: "value_field pf t (i, fieldAliasNames v ! i) (d, w) = Return r s1"
    then have "CanSet (w ! i)" "Kind (w ! i) = KBool" using assms(3,4) by (simp_all add: static_def)
    then show False using d assms(5,6) st
      by (simp add: value_field_nonslice value_scalar_bool)
  qed
qed

text \<open>
  C1. A settable list field of length zero whose key is present should be resized to the
  length of the looked-up sequence and filled position by position. The call does not get
  that far: decoding \<^verbatim>\<open>{"F": ["1", "2"]}\<close> into a struct whose only field is an empty
  \<^verbatim>\<open>F []int\<close> panics in \<^verbatim>\<open>reflect.MakeSlice\<close>, and the field is still empty.
\<close>

theorem Load_empty_slice_field_panics:
  "Load noFloat [''F'' \<mapsto> [''1'', ''2'']] (Pointer T [exported ''F'' KSlice KInt (SliceV [])])
     = Panic MakeSliceOfNonSliceType (Pointer T [exported ''F'' KSlice KInt (SliceV [])])"
  by (simp add: Load_eval)

text \<open>
  C2. A settable boolean field whose key is present with a first value other than
  \<^verbatim>\<open>"null"\<close> should become true exactly for \<^verbatim>\<open>"true"\<close> and \<^verbatim>\<open>"1"\<close>. The call
  does not get that far: decoding \<^verbatim>\<open>{"B": ["true"]}\<close> into a struct whose only field is
  \<^verbatim>\<open>B bool\<close> panics in \<^verbatim>\<open>SetBool\<close>, called on the struct, and the field is still
  false.
\<close>

theorem Load_bool_field_panics:
  "Load noFloat [''B'' \<mapsto> [''true'']] (Pointer T [exported ''B'' KBool KInvalid (BoolV False)])
     = Panic (ValueError ''reflect.Value.SetBool'' KStruct)
         (Pointer T [exported ''B'' KBool KInvalid (BoolV False)])"
  by (simp add: Load_eval)


section \<open>Scalar fields: strings and integers\<close>

lemma key_fieldAliasNames:
  "i < length v \<Longrightarrow>
   fieldAliasNames v ! i = (if Tag (v ! i) = [] then Name (v ! i) else Tag (v ! i))"
  by (simp add: fieldAliasNames_def Let_def)

lemma value_field_string:
  assumes "data d a = Some (x # xs)" and "x \<noteq> ''null''" and "CanSet (w ! i)"
    and "Kind (w ! i) = KString"
  shows "value_field pf t (i, a) (d, w) = Return () (d, w[i := (w ! i)\<lparr>Val := StringV x\<rparr>])"
  using assms by (simp add: value_field_nonslice value_scalar_string)

lemma value_field_int:
  assumes "data d a = Some (x # xs)" and "x \<noteq> ''null''" and "CanSet (w ! i)"
    and "Kind (w ! i) \<in> set int_kinds"
  shows "value_field pf t (i, a) (d, w) =
           Return () (d, w[i := (w ! i)\<lparr>Val := SetInt (Kind (w ! i)) (fst (ParseInt x))\<rparr>])"
proof -
  from assms(4) have "Kind (w ! i) \<noteq> KSlice" by auto
  with assms show ?thesis by (simp add: value_field_nonslice value_scalar_int)
qed

lemma value_field_uint:
  assumes "data d a = Some (x # xs)" and "x \<noteq> ''null''" and "CanSet (w ! i)"
    and "Kind (w ! i) \<in> set uint_kinds"
  shows "value_field pf t (i, a) (d, w) =
           Return ()
             (case snd (ParseUint x) of
                None \<Rightarrow> d
              | Some err \<Rightarrow> saveError d (LoadTypeError (''number '' @ x) t [] []),
              w[i := (w ! i)\<lparr>Val := SetUint (Kind (w ! i)) (fst (ParseUint x))\<rparr>])"
proof -
  from assms(4) have "Kind (w ! i) \<noteq> KSlice" by auto
  with assms show ?thesis
    by (simp add: value_field_nonslice value_scalar_uint split: option.splits)
qed

lemma ParseUint_digits_Cons:
  "ParseUint_digits n (c # cs) = (0, Some ErrSyntax)
   \<or> ParseUint_digits n (c # cs) = (maxUint64, Some ErrRange)
   \<or> (\<exists>n'. ParseUint_digits n (c # cs) = ParseUint_digits n' cs)"
  by (simp only: ParseUint_digits.simps Let_def split: if_split) blast

lemma ParseUint_digits_error:
  "snd (ParseUint_digits n cs) = Some ErrSyntax \<Longrightarrow> fst (ParseUint_digits n cs) = 0"
  "snd (ParseUint_digits n cs) = Some ErrRange \<Longrightarrow> fst (ParseUint_digits n cs) = maxUint64"
proof (induction cs arbitrary: n)
  case Nil
  { case 1 then show ?case by simp }
  { case 2 then show ?case by simp }
next
  case (Cons c cs)
  { case 1 with ParseUint_digits_Cons [of n c cs] Cons.IH(1) show ?case by auto }
  { case 2 with ParseUint_digits_Cons [of n c cs] Cons.IH(2) show ?case by auto }
qed

lemma ParseUint_error:
  "snd (ParseUint x) = Some ErrSyntax \<Longrightarrow> fst (ParseUint x) = 0"
  "snd (ParseUint x) = Some ErrRange \<Longrightarrow> fst (ParseUint x) = maxUint64"
  by (auto simp: ParseUint_def ParseUint_digits_error split: if_splits)

lemma ParseInt_signed_error:
  "snd (ParseInt_signed neg s) = Some ErrSyntax \<Longrightarrow> fst (ParseInt_signed neg s) = 0"
  "snd (ParseInt_signed neg s) = Some ErrRange \<Longrightarrow>
     fst (ParseInt_signed neg s) = 9223372036854775807
     \<or> fst (ParseInt_signed neg s) = - 9223372036854775808"
  by (auto simp: ParseInt_signed_def split: prod.splits option.splits numError.splits if_splits)

lemma ParseInt_error:
  "snd (ParseInt x) = Some ErrSyntax \<Longrightarrow> fst (ParseInt x) = 0"
  "snd (ParseInt x) = Some ErrRange \<Longrightarrow>
     fst (ParseInt x) = 9223372036854775807 \<or> fst (ParseInt x) = - 9223372036854775808"
  by (cases x; simp add: ParseInt_signed_error split: if_splits)+

lemma SetInt_0: "SetInt k 0 = IntV 0"
  by (cases k) (simp_all add: SetInt_def)

text \<open>
  C9. The key looked up for a field is its \<^verbatim>\<open>request\<close> tag when the tag is present and
  not empty, and its declared name otherwise. For every field, when the mapping has no
  entry under that key the field is left as it was, whatever the mapping holds under other
  keys. For a settable string field of a struct, when the call returns, the field holds
  the first value found under that key, unless there is none or it is \<^verbatim>\<open>"null"\<close>, and
  then the field is as it was. The instance below is the package's test case: decoding
  \<^verbatim>\<open>{"type": ["1"]}\<close> sets the field \<^verbatim>\<open>Type\<close>, tagged \<^verbatim>\<open>type\<close>, to
  \<^verbatim>\<open>"1"\<close> and returns no error.
\<close>

theorem Load_uses_alias_key:
  assumes "i < length v" and "key = (if Tag (v ! i) = [] then Name (v ! i) else Tag (v ! i))"
  shows "(dat key = None \<longrightarrow> fields (state_of (Load pf dat (Pointer t v))) ! i = v ! i)
       \<and> (type_Kind t = KStruct \<and> Kind (v ! i) = KString \<and> CanSet (v ! i)
            \<and> Load pf dat (Pointer t v) = Return err dest' \<longrightarrow>
          Val (fields dest' ! i) =
            (case dat key of
               None \<Rightarrow> Val (v ! i)
             | Some [] \<Rightarrow> Val (v ! i)
             | Some (x # xs) \<Rightarrow> if x = ''null'' then Val (v ! i) else StringV x))"
proof -
  have key: "key = fieldAliasNames v ! i" using assms by (simp add: key_fieldAliasNames)
  let ?walk = "foreach (value_field pf t) (enumerate 0 (fieldAliasNames v))
                 (\<lparr>data = dat, savedError = None\<rparr>, v)"
  show ?thesis
  proof (intro conjI impI)
    assume none: "dat key = None"
    show "fields (state_of (Load pf dat (Pointer t v))) ! i = v ! i"
    proof (cases "type_Kind t = KStruct")
      case False
      then show ?thesis by (simp add: Load_not_struct)
    next
      case True
      have "snd (state_of ?walk) ! i = v ! i"
      proof (rule walk_keeps_field)
        fix d :: decodeState and w :: "'a field list"
        assume "data d = dat"
        with none key show "snd (state_of (value_field pf t (i, fieldAliasNames v ! i) (d, w))) ! i = w ! i"
          by (simp add: value_field_absent)
      qed
      with True show ?thesis by (simp add: Load_fields)
    qed
  next
    assume a: "type_Kind t = KStruct \<and> Kind (v ! i) = KString \<and> CanSet (v ! i)
              \<and> Load pf dat (Pointer t v) = Return err dest'"
    then have a1: "type_Kind t = KStruct" and a2: "Load pf dat (Pointer t v) = Return err dest'"
      by simp_all
    obtain d' v' where walk: "?walk = Return () (d', v')" and dest': "dest' = Pointer t v'"
      by (rule Load_Return [OF a1 a2])
    have unchanged: "v' ! i = v ! i"
      if "\<And>d w. data d = dat \<Longrightarrow> w ! i = v ! i \<Longrightarrow>
            value_field pf t (i, fieldAliasNames v ! i) (d, w) = Return () (d, w)"
    proof -
      have "snd (state_of ?walk) ! i = v ! i"
      proof (rule walk_keeps_field)
        fix d :: decodeState and w :: "'a field list"
        assume "data d = dat" and "w ! i = v ! i"
        then show "snd (state_of (value_field pf t (i, fieldAliasNames v ! i) (d, w))) ! i = w ! i"
          by (simp add: that)
      qed
      with walk show ?thesis by simp
    qed
    show "Val (fields dest' ! i) =
              (case dat key of
                 None \<Rightarrow> Val (v ! i)
               | Some [] \<Rightarrow> Val (v ! i)
               | Some (x # xs) \<Rightarrow> if x = ''null'' then Val (v ! i) else StringV x)"
    proof (cases "dat key")
      case None
      have "v' ! i = v ! i"
      proof (rule unchanged)
        fix d :: decodeState and w :: "'a field list"
        assume "data d = dat"
        with None key show "value_field pf t (i, fieldAliasNames v ! i) (d, w) = Return () (d, w)"
          by (simp add: value_field_absent)
      qed
      with None dest' show ?thesis by simp
    next
      case (Some dataV)
      show ?thesis
      proof (cases dataV)
        case Nil
        have "v' ! i = v ! i"
        proof (rule unchanged)
          fix d :: decodeState and w :: "'a field list"
          assume "data d = dat" and "w ! i = v ! i"
          with Some Nil key a show "value_field pf t (i, fieldAliasNames v ! i) (d, w) = Return () (d, w)"
            by (simp add: value_field_nonslice)
        qed
        with Some Nil dest' show ?thesis by simp
      next
        case (Cons x xs)
        show ?thesis
        proof (cases "x = ''null''")
          case True
          have "v' ! i = v ! i"
          proof (rule unchanged)
            fix d :: decodeState and w :: "'a field list"
            assume "data d = dat" and "w ! i = v ! i"
            with Some Cons True key a
            show "value_field pf t (i, fieldAliasNames v ! i) (d, w) = Return () (d, w)"
              by (simp add: value_field_null)
          qed
          with Some Cons True dest' show ?thesis by simp
        next
          case False
          have "Val (snd (d', v') ! i) = StringV x"
          proof (rule walk_establish [where Q = "\<lambda>s. Val (snd s ! i) = StringV x", OF assms(1) walk])
            fix d :: decodeState and w :: "'a field list" and r s1
            assume "data d = dat" and "length w = length v" and "static (w ! i) = static (v ! i)"
              and "value_field pf t (i, fieldAliasNames v ! i) (d, w) = Return r s1"
            moreover from this a have "CanSet (w ! i)" "Kind (w ! i) = KString"
              by (simp_all add: static_def)
            ultimately show "Val (snd s1 ! i) = StringV x"
              using Some Cons False key assms(1) by (auto simp: value_field_string)
          next
            fix j a d and w :: "'a field list" and r s1
            assume "j \<noteq> i" and "Val (snd (d, w) ! i) = StringV x"
              and "value_field pf t (j, a) (d, w) = Return r s1"
            then show "Val (snd s1 ! i) = StringV x"
              using value_field_step(5) [where pf = pf and t = t and i = j and a = a and d = d
                  and w = w and d' = "fst s1" and w' = "snd s1" and j = i]
              by simp
          qed
          with Some Cons False dest' show ?thesis by simp
        qed
      qed
    qed
  qed
qed

theorem Load_uses_alias_key_witness:
  "1 < length (testStatusObj_fields ''success'' [])
   \<and> ''type'' = (if Tag (testStatusObj_fields ''success'' [] ! 1) = []
                 then Name (testStatusObj_fields ''success'' [] ! 1)
                 else Tag (testStatusObj_fields ''success'' [] ! 1))
   \<and> Load noFloat [''type'' \<mapsto> [''1'']] (Pointer testStatusObj (testStatusObj_fields ''success'' []))
       = Return None (Pointer testStatusObj (testStatusObj_fields ''success'' ''1''))
   \<and> Val (fields (Pointer testStatusObj (testStatusObj_fields ''success'' ''1'')) ! 1) = StringV ''1''"
proof -
  have h1: "1 < length (testStatusObj_fields ''success'' [])"
    by (simp add: testStatusObj_fields_def)
  have h2: "''type'' = (if Tag (testStatusObj_fields ''success'' [] ! 1) = []
                 then Name (testStatusObj_fields ''success'' [] ! 1)
                 else Tag (testStatusObj_fields ''success'' [] ! 1))"
    by (simp add: testStatusObj_fields_def)
  have h3: "Load noFloat [''type'' \<mapsto> [''1'']] (Pointer testStatusObj (testStatusObj_fields ''success'' []))
       = Return None (Pointer testStatusObj (testStatusObj_fields ''success'' ''1''))"
    by (simp add: Load_eval)
  from Load_uses_alias_key [where pf = noFloat and t = testStatusObj and i = 1
      and v = "testStatusObj_fields ''success'' []" and dat = "[''type'' \<mapsto> [''1'']]"
      and key = "''type''" and err = None
      and dest' = "Pointer testStatusObj (testStatusObj_fields ''success'' ''1'')", OF h1 h2] h3
  have c: "Val (fields (Pointer testStatusObj (testStatusObj_fields ''success'' ''1'')) ! 1) = StringV ''1''"
    by (simp add: testStatusObj_fields_def testStatusObj_def)
  from h1 h2 h3 c show ?thesis by blast
qed

text \<open>
  C10, as amended. For a settable signed-integer field of a struct whose key maps to a
  sequence whose first value is not \<^verbatim>\<open>"null"\<close> and fails to parse, the step of the
  field leaves the session as it is, so no error is recorded, and it overwrites the field
  with the number the parser returns beside its error; when the call returns, the field
  holds that number. The number is zero for a syntax error; for a range error it is the
  largest or the smallest signed 64-bit number, cut to the width of the field.
\<close>

theorem Load_signed_parse_failure:
  fixes v :: "'a field list"
  assumes "type_Kind t = KStruct" and "i < length v" and "Kind (v ! i) \<in> set int_kinds"
    and "CanSet (v ! i)" and "dat (fieldAliasNames v ! i) = Some (x # xs)" and "x \<noteq> ''null''"
    and "snd (ParseInt x) = Some perr"
  shows "(data d = dat \<and> Kind (w ! i) = Kind (v ! i) \<and> CanSet (w ! i) \<longrightarrow>
            value_field pf t (i, fieldAliasNames v ! i) (d, w) =
              Return () (d, w[i := (w ! i)\<lparr>Val := SetInt (Kind (v ! i)) (fst (ParseInt x))\<rparr>]))
       \<and> (Load pf dat (Pointer t v) = Return err dest' \<longrightarrow>
            Val (fields dest' ! i) = SetInt (Kind (v ! i)) (fst (ParseInt x)))
       \<and> (perr = ErrSyntax \<longrightarrow> SetInt (Kind (v ! i)) (fst (ParseInt x)) = (IntV 0 :: 'a val))
       \<and> (perr = ErrRange \<longrightarrow>
            fst (ParseInt x) = 9223372036854775807 \<or> fst (ParseInt x) = - 9223372036854775808)"
proof (intro conjI impI)
  assume "data d = dat \<and> Kind (w ! i) = Kind (v ! i) \<and> CanSet (w ! i)"
  with assms(3,5,6)
  show "value_field pf t (i, fieldAliasNames v ! i) (d, w) =
          Return () (d, w[i := (w ! i)\<lparr>Val := SetInt (Kind (v ! i)) (fst (ParseInt x))\<rparr>])"
    by (simp add: value_field_int)
next
  assume ret: "Load pf dat (Pointer t v) = Return err dest'"
  obtain d' v' where walk: "foreach (value_field pf t) (enumerate 0 (fieldAliasNames v))
       (\<lparr>data = dat, savedError = None\<rparr>, v) = Return () (d', v')" and dest': "dest' = Pointer t v'"
    by (rule Load_Return [OF assms(1) ret])
  let ?X = "SetInt (Kind (v ! i)) (fst (ParseInt x)) :: 'a val"
  have "Val (snd (d', v') ! i) = ?X"
  proof (rule walk_establish [where Q = "\<lambda>s. Val (snd s ! i) = ?X", OF assms(2) walk])
    fix d :: decodeState and w :: "'a field list" and r s1
    assume "data d = dat" and "length w = length v" and "static (w ! i) = static (v ! i)"
      and "value_field pf t (i, fieldAliasNames v ! i) (d, w) = Return r s1"
    moreover from this assms(3,4) have "CanSet (w ! i)" "Kind (w ! i) \<in> set int_kinds"
      "Kind (w ! i) = Kind (v ! i)"
      by (simp_all add: static_def)
    ultimately show "Val (snd s1 ! i) = ?X"
      using assms(2,5,6) by (auto simp: value_field_int)
  next
    fix j a d and w :: "'a field list" and r s1
    assume "j \<noteq> i" and "Val (snd (d, w) ! i) = ?X"
      and "value_field pf t (j, a) (d, w) = Return r s1"
    then show "Val (snd s1 ! i) = ?X"
      using value_field_step(5) [where pf = pf and t = t and i = j and a = a and d = d
          and w = w and d' = "fst s1" and w' = "snd s1" and j = i]
      by simp
  qed
  with dest' show "Val (fields dest' ! i) = ?X" by simp
next
  assume "perr = ErrSyntax"
  with assms(7) show "SetInt (Kind (v ! i)) (fst (ParseInt x)) = (IntV 0 :: 'a val)"
    by (simp add: ParseInt_error SetInt_0)
next
  assume "perr = ErrRange"
  with assms(7)
  show "fst (ParseInt x) = 9223372036854775807 \<or> fst (ParseInt x) = - 9223372036854775808"
    by (simp add: ParseInt_error)
qed

theorem Load_signed_parse_failure_witness:
  "Load noFloat [''N'' \<mapsto> [''abc'']] (Pointer T [exported ''N'' KInt64 KInvalid (IntV 5)])
     = Return None (Pointer T [exported ''N'' KInt64 KInvalid (IntV 0)])
   \<and> snd (ParseInt ''abc'') = Some ErrSyntax
   \<and> Val (fields (Pointer T [exported ''N'' KInt64 KInvalid (IntV 0)]) ! 0)
       = SetInt (Kind ([exported ''N'' KInt64 KInvalid (IntV 5)] ! 0)) (fst (ParseInt ''abc''))
   \<and> SetInt (Kind ([exported ''N'' KInt64 KInvalid (IntV 5)] ! 0)) (fst (ParseInt ''abc''))
       = (IntV 0 :: unit val)"
proof -
  let ?v = "[exported ''N'' KInt64 KInvalid (IntV 5)]"
  let ?dat = "[''N'' \<mapsto> [''abc'']]"
  have h1: "type_Kind T = KStruct" by (simp add: T_def)
  have h2: "0 < length ?v" by simp
  have h3: "Kind (?v ! 0) \<in> set int_kinds" by (simp add: exported_def int_kinds_def)
  have h4: "CanSet (?v ! 0)" by (simp add: exported_def)
  have h5: "?dat (fieldAliasNames ?v ! 0) = Some (''abc'' # [])"
    by (simp add: fieldAliasNames_def exported_def)
  have h6: "''abc'' \<noteq> ''null''" by simp
  have h7: "snd (ParseInt ''abc'') = Some ErrSyntax"
    by (simp add: ParseInt_signed_def ParseUint_def isDigit_def)
  have h8: "Load noFloat ?dat (Pointer T ?v)
              = Return None (Pointer T [exported ''N'' KInt64 KInvalid (IntV 0)])"
    by (simp add: Load_eval)
  from Load_signed_parse_failure [where pf = noFloat and err = None and t = T and i = 0
      and v = ?v and dat = ?dat and x = "''abc''" and xs = "[]" and perr = ErrSyntax
      and dest' = "Pointer T [exported ''N'' KInt64 KInvalid (IntV 0)]", OF h1 h2 h3 h4 h5 h6 h7] h8
  have c: "Val (fields (Pointer T [exported ''N'' KInt64 KInvalid (IntV 0)]) ! 0)
       = SetInt (Kind (?v ! 0)) (fst (ParseInt ''abc''))
     \<and> SetInt (Kind (?v ! 0)) (fst (ParseInt ''abc'')) = (IntV 0 :: unit val)"
    by blast
  from h7 h8 c show ?thesis by blast
qed

text \<open>
  C10 as stated fails for a numeral out of range: decoding
  \<^verbatim>\<open>{"N": ["9223372036854775808"]}\<close> into \<^verbatim>\<open>N int64\<close> returns no error and
  leaves \<^verbatim>\<open>N = 9223372036854775807\<close>, not zero.
\<close>

theorem Load_signed_out_of_range_counterexample:
  "Load noFloat [''N'' \<mapsto> [''9223372036854775808'']]
      (Pointer T [exported ''N'' KInt64 KInvalid (IntV 0)])
     = Return None (Pointer T [exported ''N'' KInt64 KInvalid (IntV 9223372036854775807)])
   \<and> ParseInt ''9223372036854775808'' = (9223372036854775807, Some ErrRange)"
  by (simp add: Load_eval)

section \<open>The error slot\<close>

lemma walk_list_split:
  assumes "i < length v"
  shows "enumerate 0 (fieldAliasNames v) =
           take i (enumerate 0 (fieldAliasNames v)) @
           (i, fieldAliasNames v ! i) # drop (Suc i) (enumerate 0 (fieldAliasNames v))"
proof -
  have "i < length (enumerate 0 (fieldAliasNames v))" using assms by (simp add: fieldAliasNames_def)
  from id_take_nth_drop [OF this] assms show ?thesis
    by (simp add: nth_enumerate_eq fieldAliasNames_def)
qed

lemma in_walk_rest:
  "x \<in> set (drop (Suc i) (enumerate 0 (fieldAliasNames v))) \<longleftrightarrow>
     i < fst x \<and> fst x < length v \<and> snd x = fieldAliasNames v ! fst x"
proof -
  have len: "length (fieldAliasNames v) = length v" by (simp add: fieldAliasNames_def)
  let ?xs = "enumerate 0 (fieldAliasNames v)"
  show ?thesis
  proof
    assume "x \<in> set (drop (Suc i) ?xs)"
    then obtain k where k: "k < length (drop (Suc i) ?xs)" "drop (Suc i) ?xs ! k = x"
      by (auto simp: in_set_conv_nth)
    then have "Suc i + k < length v" by (simp add: len)
    with k have "x = (Suc i + k, fieldAliasNames v ! (Suc i + k))"
      by (simp add: nth_enumerate_eq len)
    with \<open>Suc i + k < length v\<close>
    show "i < fst x \<and> fst x < length v \<and> snd x = fieldAliasNames v ! fst x" by simp
  next
    assume a: "i < fst x \<and> fst x < length v \<and> snd x = fieldAliasNames v ! fst x"
    let ?k = "fst x - Suc i"
    have "?k < length (drop (Suc i) ?xs)" using a by (simp add: len) arith
    moreover have "drop (Suc i) ?xs ! ?k = x"
      using a by (simp add: nth_enumerate_eq len prod_eq_iff)
    ultimately show "x \<in> set (drop (Suc i) ?xs)"
      unfolding in_set_conv_nth by blast
  qed
qed

text \<open>
  C6, as amended. For a settable unsigned-integer field of a struct whose key maps to a
  sequence whose first value is not \<^verbatim>\<open>"null"\<close> and fails to parse, the step of the
  field records, through \<open>saveError\<close>, a \<open>LoadTypeError\<close> whose value is \<^verbatim>\<open>"number "\<close>
  followed by the raw string, and overwrites the field with the number the parser returns
  beside its error: zero for a syntax error, the largest 64-bit number for a range error,
  cut to the width of the field. When the call returns, the field holds that number and
  the call returns an error. When moreover the walk over the fields before this one
  recorded no error, the call returns that \<open>LoadTypeError\<close>, unless a later field reaches
  the last branch of the switch, and then it returns \<open>errInvalidValue\<close>.
\<close>

theorem Load_unsigned_parse_failure:
  fixes v :: "'a field list"
  assumes "type_Kind t = KStruct" and "i < length v" and "Kind (v ! i) \<in> set uint_kinds"
    and "CanSet (v ! i)" and "dat (fieldAliasNames v ! i) = Some (x # xs)" and "x \<noteq> ''null''"
    and "ParseUint x = (n, Some perr)"
  shows "(data d = dat \<and> Kind (w ! i) = Kind (v ! i) \<and> CanSet (w ! i) \<longrightarrow>
            value_field pf t (i, fieldAliasNames v ! i) (d, w) =
              Return () (saveError d (LoadTypeError (''number '' @ x) t [] []),
                         w[i := (w ! i)\<lparr>Val := SetUint (Kind (v ! i)) n\<rparr>]))
       \<and> (Load pf dat (Pointer t v) = Return err dest' \<longrightarrow>
            Val (fields dest' ! i) = SetUint (Kind (v ! i)) n \<and> err \<noteq> None)
       \<and> (Load pf dat (Pointer t v) = Return err dest'
            \<and> foreach (value_field pf t) (take i (enumerate 0 (fieldAliasNames v)))
                 (\<lparr>data = dat, savedError = None\<rparr>, v) = Return () (d1, v1)
            \<and> savedError d1 = None \<longrightarrow>
            err = (if \<exists>j. i < j \<and> j < length v \<and> overwrites dat (fieldAliasNames v ! j) (v ! j)
                   then Some errInvalidValue
                   else Some (LoadTypeError (''number '' @ x) t [] [])))
       \<and> (perr = ErrSyntax \<longrightarrow> n = 0)
       \<and> (perr = ErrRange \<longrightarrow> n = maxUint64)"
proof -
  let ?names = "fieldAliasNames v"
  let ?key = "?names ! i"
  let ?xs = "enumerate 0 ?names"
  let ?d0 = "\<lparr>data = dat, savedError = None\<rparr>"
  let ?E = "LoadTypeError (''number '' @ x) t [] []"
  let ?X = "SetUint (Kind (v ! i)) n :: 'a val"
  have step: "value_field pf t (i, ?key) (d, w) =
                Return () (saveError d ?E, w[i := (w ! i)\<lparr>Val := ?X\<rparr>])"
    if "data d = dat" and "Kind (w ! i) = Kind (v ! i)" and "CanSet (w ! i)"
    for d and w :: "'a field list"
    using that assms(3,5,6,7) by (simp add: value_field_uint)
  have static_step: "value_field pf t (i, ?key) (d, w) =
                Return () (saveError d ?E, w[i := (w ! i)\<lparr>Val := ?X\<rparr>])"
    if "data d = dat" and "static (w ! i) = static (v ! i)"
    for d and w :: "'a field list"
    using that assms(4) by (intro step) (simp_all add: static_def)
  have c1: "data d = dat \<and> Kind (w ! i) = Kind (v ! i) \<and> CanSet (w ! i) \<longrightarrow>
            value_field pf t (i, ?key) (d, w) =
              Return () (saveError d ?E, w[i := (w ! i)\<lparr>Val := ?X\<rparr>])"
    using step by blast
  have c2: "Val (fields dest' ! i) = ?X \<and> err \<noteq> None"
    if ret: "Load pf dat (Pointer t v) = Return err dest'"
  proof -
    obtain d' v' where walk: "foreach (value_field pf t) ?xs (?d0, v) = Return () (d', v')"
      and err: "err = savedError d'" and dest': "dest' = Pointer t v'"
      by (rule Load_Return [OF assms(1) ret])
    have "Val (snd (d', v') ! i) = ?X \<and> savedError (fst (d', v')) \<noteq> None"
    proof (rule walk_establish
        [where Q = "\<lambda>s. Val (snd s ! i) = ?X \<and> savedError (fst s) \<noteq> None", OF assms(2) walk])
      fix d :: decodeState and w :: "'a field list" and r s1
      assume "data d = dat" and "length w = length v" and "static (w ! i) = static (v ! i)"
        and "value_field pf t (i, ?key) (d, w) = Return r s1"
      then show "Val (snd s1 ! i) = ?X \<and> savedError (fst s1) \<noteq> None"
        using static_step [of d w] assms(2) by (auto simp: saveError_def)
    next
      fix j a d and w :: "'a field list" and r s1
      assume j: "j \<noteq> i" and Q: "Val (snd (d, w) ! i) = ?X \<and> savedError (fst (d, w)) \<noteq> None"
        and st: "value_field pf t (j, a) (d, w) = Return r s1"
      from Q obtain e where e: "savedError d = Some e" by auto
      have "value_field pf t (j, a) (d, w) = Return r (fst s1, snd s1)" using st by simp
      from value_field_error [OF this e] have "savedError (fst s1) \<noteq> None" by (simp split: if_splits)
      moreover have "snd s1 ! i = w ! i"
        using value_field_step(5) [where pf = pf and t = t and i = j and a = a and d = d
            and w = w and d' = "fst s1" and w' = "snd s1" and j = i] st j
        by simp
      ultimately show "Val (snd s1 ! i) = ?X \<and> savedError (fst s1) \<noteq> None" using Q by simp
    qed
    with err dest' show ?thesis by simp
  qed
  have c3: "err = (if \<exists>j. i < j \<and> j < length v \<and> overwrites dat (?names ! j) (v ! j)
                   then Some errInvalidValue else Some ?E)"
    if ret: "Load pf dat (Pointer t v) = Return err dest'"
      and pre: "foreach (value_field pf t) (take i ?xs) (?d0, v) = Return () (d1, v1)"
      and none: "savedError d1 = None"
  proof -
    obtain d' v' where walk: "foreach (value_field pf t) ?xs (?d0, v) = Return () (d', v')"
      and err: "err = savedError d'"
      by (rule Load_Return [OF assms(1) ret])
    let ?ys = "take i ?xs @ [(i, ?key)]"
    let ?zs = "drop (Suc i) ?xs"
    have split: "?xs = ?ys @ ?zs" using walk_list_split [OF assms(2)] by simp
    from pre have st1: "state_of (foreach (value_field pf t) (take i ?xs) (?d0, v)) = (d1, v1)"
      by simp
    have d1: "data d1 = dat" using walk_keeps(1) [OF st1] by simp
    have s1: "static (v1 ! i) = static (v ! i)" by (rule walk_keeps(3) [OF st1])
    have ys: "foreach (value_field pf t) ?ys (?d0, v) =
                Return () (saveError d1 ?E, v1[i := (v1 ! i)\<lparr>Val := ?X\<rparr>])"
      using pre static_step [OF d1 s1] by (simp add: foreach_append)
    have saved: "savedError (saveError d1 ?E) = Some ?E"
      using none by (simp add: saveError_def addErrorContext_def)
    have walk': "foreach (value_field pf t) (?ys @ ?zs) (?d0, v) = Return () (d', v')"
      using walk split by simp
    have "savedError d' =
            (if \<exists>x\<in>set ?zs. overwrites (data ?d0) (snd x) (v ! fst x) then Some errInvalidValue
             else Some ?E)"
      by (rule walk_split_error [OF walk' ys saved])
    moreover have "(\<exists>x\<in>set ?zs. overwrites dat (snd x) (v ! fst x)) \<longleftrightarrow>
        (\<exists>j. i < j \<and> j < length v \<and> overwrites dat (?names ! j) (v ! j))"
    proof
      assume "\<exists>x\<in>set ?zs. overwrites dat (snd x) (v ! fst x)"
      then obtain y where "y \<in> set ?zs" "overwrites dat (snd y) (v ! fst y)" by blast
      then have "i < fst y \<and> fst y < length v \<and> overwrites dat (?names ! fst y) (v ! fst y)"
        by (simp add: in_walk_rest)
      then show "\<exists>j. i < j \<and> j < length v \<and> overwrites dat (?names ! j) (v ! j)" by blast
    next
      assume "\<exists>j. i < j \<and> j < length v \<and> overwrites dat (?names ! j) (v ! j)"
      then obtain j where j: "i < j" "j < length v" "overwrites dat (?names ! j) (v ! j)" by blast
      then have "(j, ?names ! j) \<in> set ?zs" by (simp add: in_walk_rest)
      with j(3) show "\<exists>x\<in>set ?zs. overwrites dat (snd x) (v ! fst x)" by force
    qed
    ultimately show ?thesis using err by simp
  qed
  have c4: "perr = ErrSyntax \<longrightarrow> n = 0" and c5: "perr = ErrRange \<longrightarrow> n = maxUint64"
    using assms(7) ParseUint_error [of x] by auto
  from c1 c2 c3 c4 c5 show ?thesis by blast
qed

theorem Load_unsigned_parse_failure_witness:
  "Load noFloat [''U'' \<mapsto> [''abc'']] (Pointer T [exported ''U'' KUint64 KInvalid (UintV 7)])
     = Return (Some (LoadTypeError ''number abc'' T [] []))
         (Pointer T [exported ''U'' KUint64 KInvalid (UintV 0)])
   \<and> ParseUint ''abc'' = (0, Some ErrSyntax)
   \<and> Val (fields (Pointer T [exported ''U'' KUint64 KInvalid (UintV 0)]) ! 0)
       = SetUint (Kind ([exported ''U'' KUint64 KInvalid (UintV 7)] ! 0)) 0
   \<and> Some (LoadTypeError ''number abc'' T [] []) \<noteq> None"
proof -
  let ?v = "[exported ''U'' KUint64 KInvalid (UintV 7)]"
  let ?v' = "[exported ''U'' KUint64 KInvalid (UintV 0)]"
  let ?dat = "[''U'' \<mapsto> [''abc'']]"
  let ?E = "LoadTypeError ''number abc'' T [] []"
  have h1: "type_Kind T = KStruct" by (simp add: T_def)
  have h2: "0 < length ?v" by simp
  have h3: "Kind (?v ! 0) \<in> set uint_kinds" by (simp add: exported_def uint_kinds_def)
  have h4: "CanSet (?v ! 0)" by (simp add: exported_def)
  have h5: "?dat (fieldAliasNames ?v ! 0) = Some (''abc'' # [])"
    by (simp add: fieldAliasNames_def exported_def)
  have h6: "''abc'' \<noteq> ''null''" by simp
  have h7: "ParseUint ''abc'' = (0, Some ErrSyntax)"
    by (simp add: ParseUint_def isDigit_def)
  have h8: "Load noFloat ?dat (Pointer T ?v) = Return (Some ?E) (Pointer T ?v')"
    by (simp add: Load_eval)
  from Load_unsigned_parse_failure [where pf = noFloat and err = "Some ?E" and t = T and i = 0
      and v = ?v and dat = ?dat and x = "''abc''" and xs = "[]" and perr = ErrSyntax and n = 0
      and dest' = "Pointer T ?v'", OF h1 h2 h3 h4 h5 h6 h7] h8
  have c: "Val (fields (Pointer T ?v') ! 0) = SetUint (Kind (?v ! 0)) 0 \<and> Some ?E \<noteq> None"
    by blast
  from h7 h8 c show ?thesis by blast
qed

text \<open>
  C6 as stated fails twice on one call: decoding
  \<^verbatim>\<open>{"U": ["99999999999999999999x"], "S": ["b"]}\<close> into \<^verbatim>\<open>U uint64\<close> and
  \<^verbatim>\<open>S = []string{"a"}\<close> records the \<open>LoadTypeError\<close> for \<^verbatim>\<open>U\<close> first, and yet
  returns \<open>errInvalidValue\<close>, written by the list field \<^verbatim>\<open>S\<close>; and \<^verbatim>\<open>U\<close> is left
  at the largest 64-bit number, not at zero, because the parser meets the overflow before
  it meets the letter.
\<close>

theorem Load_unsigned_counterexample:
  "Load noFloat [''U'' \<mapsto> [''99999999999999999999x''], ''S'' \<mapsto> [''b'']]
      (Pointer T [exported ''U'' KUint64 KInvalid (UintV 0),
                  exported ''S'' KSlice KString (SliceV [StringV ''a''])])
     = Return (Some errInvalidValue)
         (Pointer T [exported ''U'' KUint64 KInvalid (UintV 18446744073709551615),
                     exported ''S'' KSlice KString (SliceV [StringV ''b''])])"
  by (simp add: Load_eval)

section \<open>List fields of nonzero length\<close>

text \<open>
  Whenever a call returns, a settable list field of nonzero length whose key maps to a
  sequence whose first value is not \<^verbatim>\<open>"null"\<close> has made it return \<open>errInvalidValue\<close>:
  after the element loop the switch of lines 136-159 is evaluated on the field itself, of
  kind \<^verbatim>\<open>Slice\<close>, and reaches its last branch. So it is for \<^verbatim>\<open>{"F": ["1", "2"]}\<close>
  decoded into \<^verbatim>\<open>F = []int{5, 6}\<close>, where both elements are coerced.
\<close>

lemma Load_slice_field_invalid_value:
  fixes v :: "'a field list"
  assumes "type_Kind t = KStruct" and "i < length v" and "Kind (v ! i) = KSlice"
    and "CanSet (v ! i)" and "0 < Len (v ! i)"
    and "dat (fieldAliasNames v ! i) = Some (x # xs)" and "x \<noteq> ''null''"
    and "Load pf dat (Pointer t v) = Return err dest'"
  shows "err = Some errInvalidValue"
proof -
  obtain d' v' where walk: "foreach (value_field pf t) (enumerate 0 (fieldAliasNames v))
       (\<lparr>data = dat, savedError = None\<rparr>, v) = Return () (d', v')" and err: "err = savedError d'"
    by (rule Load_Return [OF assms(1,8)])
  have "savedError (fst (d', v')) = Some errInvalidValue"
  proof (rule walk_establish
      [where Q = "\<lambda>s. savedError (fst s) = Some errInvalidValue", OF assms(2) walk])
    fix d :: decodeState and w :: "'a field list" and r s1
    assume d: "data d = dat" and "static (w ! i) = static (v ! i)"
      and st: "value_field pf t (i, fieldAliasNames v ! i) (d, w) = Return r s1"
    then have "CanSet (w ! i)" "Kind (w ! i) = KSlice" using assms(3,4) by (simp_all add: static_def)
    with d assms(6,7) st show "savedError (fst s1) = Some errInvalidValue"
      by (auto simp: value_field_slice split: outcome.splits)
  next
    fix j a d and w :: "'a field list" and r s1
    assume "savedError (fst (d, w)) = Some errInvalidValue"
      and st: "value_field pf t (j, a) (d, w) = Return r s1"
    then have e: "savedError d = Some errInvalidValue" by simp
    have "value_field pf t (j, a) (d, w) = Return r (fst s1, snd s1)" using st by simp
    from value_field_error [OF this e] show "savedError (fst s1) = Some errInvalidValue"
      by (simp split: if_splits)
  qed
  with err show ?thesis by simp
qed


lemma Load_slice_field_invalid_value_instance:
  "Load noFloat [''F'' \<mapsto> [''1'', ''2'']] (Pointer T [exported ''F'' KSlice KInt (SliceV [IntV 5, IntV 6])])
     = Return (Some errInvalidValue) (Pointer T [exported ''F'' KSlice KInt (SliceV [IntV 1, IntV 2])])"
  by (simp add: Load_eval)

text \<open>
  The element loop (lines 103-125) runs over the positions of the field and reads
  \<^verbatim>\<open>dataV[i]\<close> without comparing \<open>i\<close> with the length of the sequence. A call with
  two list fields, the first with as many values as elements, the second with fewer,
  coerces every element of the first and then panics in the second.
\<close>

lemma Load_slice_field_then_short_sequence:
  "Load noFloat [''F'' \<mapsto> [''1'', ''2''], ''G'' \<mapsto> [''3'']]
      (Pointer T [exported ''F'' KSlice KInt (SliceV [IntV 5, IntV 6]),
                  exported ''G'' KSlice KInt (SliceV [IntV 7, IntV 8])])
     = Panic (IndexOutOfRange 1 1)
         (Pointer T [exported ''F'' KSlice KInt (SliceV [IntV 1, IntV 2]),
                     exported ''G'' KSlice KInt (SliceV [IntV 3, IntV 8])])"
  by (simp add: Load_eval)

text \<open>
  C4. A settable list field of nonzero length whose key is present with a first value
  other than \<^verbatim>\<open>"null"\<close> should have every element coerced and make the call return
  \<open>errInvalidValue\<close>. The call does not get that far when the sequence is shorter than
  the field: decoding \<^verbatim>\<open>{"F": ["1"]}\<close> into \<^verbatim>\<open>F = []int{5, 6}\<close> panics at
  \<^verbatim>\<open>dataV[1]\<close>, after the first element was written, and returns no error at all.
\<close>

theorem Load_slice_field_index_panics:
  "Load noFloat [''F'' \<mapsto> [''1'']] (Pointer T [exported ''F'' KSlice KInt (SliceV [IntV 5, IntV 6])])
     = Panic (IndexOutOfRange 1 1) (Pointer T [exported ''F'' KSlice KInt (SliceV [IntV 1, IntV 6])])"
  by (simp add: Load_eval)

section \<open>The accumulator of errors\<close>

lemma value_field_slice_session:
  fixes w :: "'a field list"
  assumes "data d a = Some dataV" and "CanSet (w ! i)" and "Kind (w ! i) = KSlice"
    and "value_field pf t (i, a) (d, w) = Return r (d', w')"
  shows "\<exists>d'' es.
           foreach (value_elem pf t (Elem (w ! i)) dataV) [0 ..< Len (w ! i)]
             (d, elems (Val (w ! i))) = Return () (d'', es)
           \<and> w' = w[i := (w ! i)\<lparr>Val := SliceV es\<rparr>]
           \<and> d' = (case dataV of
                     [] \<Rightarrow> d''
                   | x # xs \<Rightarrow> if x = ''null'' then d''
                               else d''\<lparr>savedError := Some errInvalidValue\<rparr>)"
proof -
  let ?loop = "foreach (value_elem pf t (Elem (w ! i)) dataV) [0 ..< Len (w ! i)]
             (d, elems (Val (w ! i)))"
  from assms have ret: "(case value_slice pf t dataV i (d, w) of
        Panic p s' \<Rightarrow> Panic p s'
      | Return u s' \<Rightarrow>
          if length dataV < 1 then Return () s'
          else if dataV ! 0 = ''null'' then Return () s'
          else Return () ((fst s')\<lparr>savedError := Some errInvalidValue\<rparr>, snd s')) = Return r (d', w')"
    by (simp add: value_field_slice)
  then obtain u s1 where vs: "value_slice pf t dataV i (d, w) = Return u s1"
    by (cases "value_slice pf t dataV i (d, w)") auto
  then have len: "Len (w ! i) \<noteq> 0" by (auto simp: value_slice_def Let_def split: if_splits)
  with vs obtain d'' es where loop: "?loop = Return () (d'', es)"
    and s1: "s1 = (d'', w[i := (w ! i)\<lparr>Val := SliceV es\<rparr>])"
    by (cases ?loop) (auto simp: value_slice_def Let_def)
  from ret vs s1 have "w' = w[i := (w ! i)\<lparr>Val := SliceV es\<rparr>]"
    and "d' = (case dataV of
                     [] \<Rightarrow> d''
                   | x # xs \<Rightarrow> if x = ''null'' then d''
                               else d''\<lparr>savedError := Some errInvalidValue\<rparr>)"
    by (cases dataV; auto split: if_splits)+
  with loop show ?thesis by blast
qed

lemma value_field_overwrites:
  fixes w :: "'a field list"
  assumes "overwrites (data d) a (w ! i)" and "value_field pf t (i, a) (d, w) = Return r (d', w')"
  shows "savedError d' = Some errInvalidValue"
proof -
  from assms(1) obtain x xs where dat: "data d a = Some (x # xs)" and x: "x \<noteq> ''null''"
    and cs: "CanSet (w ! i)"
    and k: "Kind (w ! i) \<notin> set (int_kinds @ uint_kinds @ float_kinds @ [KBool, KString, KInterface])"
    by (auto simp: overwrites_def split: option.splits list.splits)
  show ?thesis
  proof (cases "Kind (w ! i) = KSlice")
    case True
    from value_field_slice_session [OF dat cs True assms(2)] x show ?thesis by auto
  next
    case False
    with dat x cs k assms(2) show ?thesis
      by (auto simp: value_field_nonslice value_scalar_other)
  qed
qed

text \<open>
  C3. Every coercion failure is recorded through \<open>saveError\<close>, which stores an error into
  an empty slot and leaves a filled slot as it is. The step of a settable unsigned or
  floating-point field whose first value fails to parse takes the session \<open>d\<close> to
  \<open>saveError d\<close> of a \<open>LoadTypeError\<close> naming the raw string, and so does the step of the
  element loop at an element of an unsigned or floating-point list that fails to parse;
  the session a list field leaves is the session its element loop leaves, but for the
  write below. The one write that does not go through \<open>saveError\<close> is the last branch of
  the switch of lines 136-159: a step that reaches it leaves \<open>errInvalidValue\<close> in the
  slot whatever the slot held, and a step that does not reach it leaves a filled slot as
  it is. A call on a struct that returns, returns the content of the slot at the end of
  the walk: split the walk at any point where the slot holds an error \<open>e\<close>, then the call
  returns \<open>e\<close>, unless one of the remaining fields reaches that last branch, and then it
  returns \<open>errInvalidValue\<close>.
\<close>

theorem first_error_wins:
  fixes v w :: "'a field list" and es :: "'a val list"
  shows
  "saveError d e' = (if savedError d = None then d\<lparr>savedError := Some e'\<rparr> else d)
   \<and> (data d a = Some (x # xs) \<and> x \<noteq> ''null'' \<and> CanSet (w ! i)
        \<and> Kind (w ! i) \<in> set uint_kinds \<and> ParseUint x = (n, Some perr) \<longrightarrow>
      value_field pf t (i, a) (d, w) =
        Return () (saveError d (LoadTypeError (''number '' @ x) t [] []),
                   w[i := (w ! i)\<lparr>Val := SetUint (Kind (w ! i)) n\<rparr>]))
   \<and> (data d a = Some (x # xs) \<and> x \<noteq> ''null'' \<and> CanSet (w ! i)
        \<and> Kind (w ! i) \<in> set float_kinds \<and> pf (Bits (Kind (w ! i))) x = None \<longrightarrow>
      value_field pf t (i, a) (d, w) =
        Return () (saveError d (LoadTypeError (''number '' @ x) t [] []), w))
   \<and> (ek \<in> set uint_kinds \<and> j < length dataV \<and> ParseUint (dataV ! j) = (n, Some perr) \<longrightarrow>
      value_elem pf t ek dataV j (d, es) =
        Return () (saveError d (LoadTypeError (''array '' @ dataV ! j) t [] []),
                   es[j := SetUint ek n]))
   \<and> (ek \<in> set float_kinds \<and> j < length dataV \<and> pf (Bits ek) (dataV ! j) = None \<longrightarrow>
      value_elem pf t ek dataV j (d, es) =
        Return () (saveError d (LoadTypeError (''array '' @ dataV ! j) t [] []), es))
   \<and> (data d a = Some dataV \<and> CanSet (w ! i) \<and> Kind (w ! i) = KSlice
        \<and> value_field pf t (i, a) (d, w) = Return r (d', w') \<longrightarrow>
      (\<exists>d'' es'.
         foreach (value_elem pf t (Elem (w ! i)) dataV) [0 ..< Len (w ! i)]
           (d, elems (Val (w ! i))) = Return () (d'', es')
         \<and> w' = w[i := (w ! i)\<lparr>Val := SliceV es'\<rparr>]
         \<and> d' = (case dataV of
                   [] \<Rightarrow> d''
                 | y # ys \<Rightarrow> if y = ''null'' then d''
                             else d''\<lparr>savedError := Some errInvalidValue\<rparr>)))
   \<and> (overwrites (data d) a (w ! i) \<and> value_field pf t (i, a) (d, w) = Return r (d', w') \<longrightarrow>
      savedError d' = Some errInvalidValue)
   \<and> (savedError d = Some e \<and> value_field pf t (i, a) (d, w) = Return r (d', w') \<longrightarrow>
      savedError d' = (if overwrites (data d) a (w ! i) then Some errInvalidValue else Some e))
   \<and> (type_Kind t = KStruct \<and> Load pf dat (Pointer t v) = Return err dest' \<longrightarrow>
      (\<exists>d2 v2. foreach (value_field pf t) (enumerate 0 (fieldAliasNames v))
                  (\<lparr>data = dat, savedError = None\<rparr>, v) = Return () (d2, v2)
               \<and> err = savedError d2 \<and> dest' = Pointer t v2))
   \<and> (type_Kind t = KStruct \<and> Load pf dat (Pointer t v) = Return err dest'
        \<and> enumerate 0 (fieldAliasNames v) = fs @ gs
        \<and> foreach (value_field pf t) fs (\<lparr>data = dat, savedError = None\<rparr>, v)
             = Return () (d1, v1)
        \<and> savedError d1 = Some e \<longrightarrow>
      err = (if \<exists>g\<in>set gs. overwrites dat (snd g) (v ! fst g) then Some errInvalidValue
             else Some e))"
proof (intro conjI impI)
  show "saveError d e' = (if savedError d = None then d\<lparr>savedError := Some e'\<rparr> else d)"
    by (simp add: saveError_def addErrorContext_def)
next
  assume "data d a = Some (x # xs) \<and> x \<noteq> ''null'' \<and> CanSet (w ! i)
        \<and> Kind (w ! i) \<in> set uint_kinds \<and> ParseUint x = (n, Some perr)"
  then have h: "data d a = Some (x # xs)" "x \<noteq> ''null''" "CanSet (w ! i)"
    "Kind (w ! i) \<in> set uint_kinds" "ParseUint x = (n, Some perr)"
    by simp_all
  from h(4) have "Kind (w ! i) \<noteq> KSlice" "Kind (w ! i) \<notin> set int_kinds"
    by (auto simp: kinds_distinct)
  with h show "value_field pf t (i, a) (d, w) =
        Return () (saveError d (LoadTypeError (''number '' @ x) t [] []),
                   w[i := (w ! i)\<lparr>Val := SetUint (Kind (w ! i)) n\<rparr>])"
    by (simp add: value_field_def value_scalar_def Let_def)
next
  assume "data d a = Some (x # xs) \<and> x \<noteq> ''null'' \<and> CanSet (w ! i)
        \<and> Kind (w ! i) \<in> set float_kinds \<and> pf (Bits (Kind (w ! i))) x = None"
  then have h: "data d a = Some (x # xs)" "x \<noteq> ''null''" "CanSet (w ! i)"
    "Kind (w ! i) \<in> set float_kinds" "pf (Bits (Kind (w ! i))) x = None"
    by simp_all
  from h(4) have "Kind (w ! i) \<noteq> KSlice" "Kind (w ! i) \<notin> set int_kinds"
    "Kind (w ! i) \<notin> set uint_kinds" "Kind (w ! i) \<noteq> KBool"
    by (auto simp: kinds_distinct)
  with h show "value_field pf t (i, a) (d, w) =
        Return () (saveError d (LoadTypeError (''number '' @ x) t [] []), w)"
    by (simp add: value_field_def value_scalar_def Let_def)
next
  assume "ek \<in> set uint_kinds \<and> j < length dataV \<and> ParseUint (dataV ! j) = (n, Some perr)"
  then show "value_elem pf t ek dataV j (d, es) =
        Return () (saveError d (LoadTypeError (''array '' @ dataV ! j) t [] []),
                   es[j := SetUint ek n])"
    by (simp add: value_elem_def index_def kinds_distinct)
next
  assume "ek \<in> set float_kinds \<and> j < length dataV \<and> pf (Bits ek) (dataV ! j) = None"
  then show "value_elem pf t ek dataV j (d, es) =
        Return () (saveError d (LoadTypeError (''array '' @ dataV ! j) t [] []), es)"
    by (simp add: value_elem_def index_def kinds_distinct)
next
  assume "data d a = Some dataV \<and> CanSet (w ! i) \<and> Kind (w ! i) = KSlice
        \<and> value_field pf t (i, a) (d, w) = Return r (d', w')"
  then have "data d a = Some dataV" "CanSet (w ! i)" "Kind (w ! i) = KSlice"
    "value_field pf t (i, a) (d, w) = Return r (d', w')"
    by simp_all
  then show "\<exists>d'' es'.
         foreach (value_elem pf t (Elem (w ! i)) dataV) [0 ..< Len (w ! i)]
           (d, elems (Val (w ! i))) = Return () (d'', es')
         \<and> w' = w[i := (w ! i)\<lparr>Val := SliceV es'\<rparr>]
         \<and> d' = (case dataV of
                   [] \<Rightarrow> d''
                 | y # ys \<Rightarrow> if y = ''null'' then d''
                             else d''\<lparr>savedError := Some errInvalidValue\<rparr>)"
    by (rule value_field_slice_session)
next
  assume "overwrites (data d) a (w ! i) \<and> value_field pf t (i, a) (d, w) = Return r (d', w')"
  then have "overwrites (data d) a (w ! i)" "value_field pf t (i, a) (d, w) = Return r (d', w')"
    by simp_all
  then show "savedError d' = Some errInvalidValue" by (rule value_field_overwrites)
next
  assume "savedError d = Some e \<and> value_field pf t (i, a) (d, w) = Return r (d', w')"
  then have "value_field pf t (i, a) (d, w) = Return r (d', w')" "savedError d = Some e"
    by simp_all
  then show "savedError d' =
      (if overwrites (data d) a (w ! i) then Some errInvalidValue else Some e)"
    by (rule value_field_error)
next
  assume "type_Kind t = KStruct \<and> Load pf dat (Pointer t v) = Return err dest'"
  then have a: "type_Kind t = KStruct" "Load pf dat (Pointer t v) = Return err dest'"
    by simp_all
  obtain d2 v2 where "foreach (value_field pf t) (enumerate 0 (fieldAliasNames v))
       (\<lparr>data = dat, savedError = None\<rparr>, v) = Return () (d2, v2)"
    and "err = savedError d2" and "dest' = Pointer t v2"
    by (rule Load_Return [OF a])
  then show "\<exists>d2 v2. foreach (value_field pf t) (enumerate 0 (fieldAliasNames v))
                  (\<lparr>data = dat, savedError = None\<rparr>, v) = Return () (d2, v2)
               \<and> err = savedError d2 \<and> dest' = Pointer t v2"
    by blast
next
  assume "type_Kind t = KStruct \<and> Load pf dat (Pointer t v) = Return err dest'
        \<and> enumerate 0 (fieldAliasNames v) = fs @ gs
        \<and> foreach (value_field pf t) fs (\<lparr>data = dat, savedError = None\<rparr>, v)
             = Return () (d1, v1)
        \<and> savedError d1 = Some e"
  then have a: "type_Kind t = KStruct" "Load pf dat (Pointer t v) = Return err dest'"
    and split: "enumerate 0 (fieldAliasNames v) = fs @ gs"
    and pre: "foreach (value_field pf t) fs (\<lparr>data = dat, savedError = None\<rparr>, v)
             = Return () (d1, v1)"
    and e: "savedError d1 = Some e"
    by simp_all
  obtain d2 v2 where walk: "foreach (value_field pf t) (enumerate 0 (fieldAliasNames v))
       (\<lparr>data = dat, savedError = None\<rparr>, v) = Return () (d2, v2)"
    and err: "err = savedError d2"
    by (rule Load_Return [OF a])
  from walk split
  have walk': "foreach (value_field pf t) (fs @ gs) (\<lparr>data = dat, savedError = None\<rparr>, v)
                 = Return () (d2, v2)"
    by simp
  have "savedError d2 =
          (if \<exists>g\<in>set gs. overwrites (data \<lparr>data = dat, savedError = None\<rparr>) (snd g) (v ! fst g)
           then Some errInvalidValue else Some e)"
    by (rule walk_split_error [OF walk' pre e])
  with err show "err = (if \<exists>g\<in>set gs. overwrites dat (snd g) (v ! fst g)
                        then Some errInvalidValue else Some e)"
    by simp
qed

theorem first_error_wins_witness:
  "Load noFloat [''A'' \<mapsto> [''x''], ''B'' \<mapsto> [''y'']]
      (Pointer T [exported ''A'' KUint KInvalid (UintV 1), exported ''B'' KUint KInvalid (UintV 2),
                  exported ''M'' KMap KInvalid OtherV])
     = Return (Some (LoadTypeError ''number x'' T [] []))
         (Pointer T [exported ''A'' KUint KInvalid (UintV 0), exported ''B'' KUint KInvalid (UintV 0),
                     exported ''M'' KMap KInvalid OtherV])
   \<and> Some (LoadTypeError ''number x'' T [] [])
       = (if \<exists>g\<in>set [(1, ''B''), (2, ''M'')].
               overwrites [''A'' \<mapsto> [''x''], ''B'' \<mapsto> [''y'']] (snd g)
                 ([exported ''A'' KUint KInvalid (UintV 1), exported ''B'' KUint KInvalid (UintV 2),
                   exported ''M'' KMap KInvalid OtherV] ! fst g)
          then Some errInvalidValue else Some (LoadTypeError ''number x'' T [] []))
   \<and> value_field noFloat T (0, ''A'')
        (\<lparr>data = [''A'' \<mapsto> [''x''], ''B'' \<mapsto> [''y'']], savedError = None\<rparr>,
         [exported ''A'' KUint KInvalid (UintV 1), exported ''B'' KUint KInvalid (UintV 2),
          exported ''M'' KMap KInvalid OtherV])
       = Return ()
           (\<lparr>data = [''A'' \<mapsto> [''x''], ''B'' \<mapsto> [''y'']],
              savedError = Some (LoadTypeError ''number x'' T [] [])\<rparr>,
            [exported ''A'' KUint KInvalid (UintV 0), exported ''B'' KUint KInvalid (UintV 2),
             exported ''M'' KMap KInvalid OtherV])
   \<and> Load noFloat [''X'' \<mapsto> [''abc'']] (Pointer T [exported ''X'' KFloat64 KInvalid (FloatV ())])
       = Return (Some (LoadTypeError ''number abc'' T [] []))
           (Pointer T [exported ''X'' KFloat64 KInvalid (FloatV ())])
   \<and> value_field noFloat T (0, ''X'')
        (\<lparr>data = [''X'' \<mapsto> [''abc'']], savedError = None\<rparr>,
         [exported ''X'' KFloat64 KInvalid (FloatV ())])
       = Return ()
           (\<lparr>data = [''X'' \<mapsto> [''abc'']], savedError = Some (LoadTypeError ''number abc'' T [] [])\<rparr>,
            [exported ''X'' KFloat64 KInvalid (FloatV ())])
   \<and> Load noFloat [''U'' \<mapsto> [''null'', ''y'']]
        (Pointer T [exported ''U'' KSlice KUint (SliceV [UintV 1, UintV 2])])
       = Return (Some (LoadTypeError ''array null'' T [] []))
           (Pointer T [exported ''U'' KSlice KUint (SliceV [UintV 0, UintV 0])])
   \<and> value_elem noFloat T KUint [''null'', ''y''] 0
        (\<lparr>data = [''U'' \<mapsto> [''null'', ''y'']], savedError = None\<rparr>, [UintV 1, UintV 2])
       = Return ()
           (\<lparr>data = [''U'' \<mapsto> [''null'', ''y'']],
              savedError = Some (LoadTypeError ''array null'' T [] [])\<rparr>,
            [UintV 0, UintV 2])
   \<and> Load noFloat [''G'' \<mapsto> [''null'']]
        (Pointer T [exported ''G'' KSlice KFloat32 (SliceV [FloatV ()])])
       = Return (Some (LoadTypeError ''array null'' T [] []))
           (Pointer T [exported ''G'' KSlice KFloat32 (SliceV [FloatV ()])])
   \<and> value_elem noFloat T KFloat32 [''null''] 0
        (\<lparr>data = [''G'' \<mapsto> [''null'']], savedError = None\<rparr>, [FloatV ()])
       = Return ()
           (\<lparr>data = [''G'' \<mapsto> [''null'']], savedError = Some (LoadTypeError ''array null'' T [] [])\<rparr>,
            [FloatV ()])
   \<and> Load noFloat [''A'' \<mapsto> [''x''], ''S'' \<mapsto> [''b'']]
        (Pointer T [exported ''A'' KUint KInvalid (UintV 1),
                    exported ''S'' KSlice KString (SliceV [StringV ''a''])])
       = Return (Some errInvalidValue)
           (Pointer T [exported ''A'' KUint KInvalid (UintV 0),
                       exported ''S'' KSlice KString (SliceV [StringV ''b''])])"
proof -
  note uint_step = first_error_wins [THEN conjunct2, THEN conjunct1, rule_format]
  note float_step = first_error_wins [THEN conjunct2, THEN conjunct2, THEN conjunct1, rule_format]
  note uint_elem = first_error_wins [THEN conjunct2, THEN conjunct2, THEN conjunct2,
      THEN conjunct1, rule_format]
  note float_elem = first_error_wins [THEN conjunct2, THEN conjunct2, THEN conjunct2,
      THEN conjunct2, THEN conjunct1, rule_format]
  note rest = first_error_wins [THEN conjunct2, THEN conjunct2, THEN conjunct2,
      THEN conjunct2, THEN conjunct2, THEN conjunct2, THEN conjunct2, THEN conjunct2,
      THEN conjunct2, rule_format]
  let ?E = "LoadTypeError ''number x'' T [] []"
  let ?dat = "[''A'' \<mapsto> [''x''], ''B'' \<mapsto> [''y'']]"
  let ?v = "[exported ''A'' KUint KInvalid (UintV 1), exported ''B'' KUint KInvalid (UintV 2),
             exported ''M'' KMap KInvalid OtherV]"
  let ?v1 = "[exported ''A'' KUint KInvalid (UintV 0), exported ''B'' KUint KInvalid (UintV 2),
             exported ''M'' KMap KInvalid OtherV]"
  let ?v' = "[exported ''A'' KUint KInvalid (UintV 0), exported ''B'' KUint KInvalid (UintV 0),
             exported ''M'' KMap KInvalid OtherV]"
  have l1: "Load noFloat ?dat (Pointer T ?v) = Return (Some ?E) (Pointer T ?v')"
    by (simp add: Load_eval)
  have s1h: "data \<lparr>data = ?dat, savedError = None\<rparr> ''A'' = Some (''x'' # []) \<and> ''x'' \<noteq> ''null''
      \<and> CanSet (?v ! 0) \<and> Kind (?v ! 0) \<in> set uint_kinds \<and> ParseUint ''x'' = (0, Some ErrSyntax)"
    by (simp add: exported_def uint_kinds_def ParseUint_def isDigit_def)
  have s1: "value_field noFloat T (0, ''A'') (\<lparr>data = ?dat, savedError = None\<rparr>, ?v)
       = Return () (\<lparr>data = ?dat, savedError = Some ?E\<rparr>, ?v1)"
    using uint_step [where pf = noFloat and t = T and d = "\<lparr>data = ?dat, savedError = None\<rparr>"
        and a = "''A''" and x = "''x''" and xs = "[]" and w = ?v and i = 0 and n = 0
        and perr = ErrSyntax, OF s1h]
    by (simp add: saveError_def addErrorContext_def exported_def SetUint_def)
  have c1h: "type_Kind T = KStruct \<and> Load noFloat ?dat (Pointer T ?v) = Return (Some ?E) (Pointer T ?v')
      \<and> enumerate 0 (fieldAliasNames ?v) = [(0, ''A'')] @ [(1, ''B''), (2, ''M'')]
      \<and> foreach (value_field noFloat T) [(0, ''A'')] (\<lparr>data = ?dat, savedError = None\<rparr>, ?v)
           = Return () (\<lparr>data = ?dat, savedError = Some ?E\<rparr>, ?v1)
      \<and> savedError \<lparr>data = ?dat, savedError = Some ?E\<rparr> = Some ?E"
    using l1 s1 by (simp add: T_def fieldAliasNames_def exported_def)
  have c1: "Some ?E = (if \<exists>g\<in>set [(1, ''B''), (2, ''M'')]. overwrites ?dat (snd g) (?v ! fst g)
          then Some errInvalidValue else Some ?E)"
    by (rule rest [where pf = noFloat and t = T and v = ?v and dat = ?dat
      and fs = "[(0, ''A'')]" and gs = "[(1, ''B''), (2, ''M'')]" and e = ?E and err = "Some ?E"
      and dest' = "Pointer T ?v'" and ?d1.0 = "\<lparr>data = ?dat, savedError = Some ?E\<rparr>"
      and ?v1.0 = ?v1, OF c1h])
  let ?EX = "LoadTypeError ''number abc'' T [] []"
  let ?vX = "[exported ''X'' KFloat64 KInvalid (FloatV ())]"
  let ?dX = "\<lparr>data = [''X'' \<mapsto> [''abc'']], savedError = None\<rparr>"
  have l2: "Load noFloat [''X'' \<mapsto> [''abc'']] (Pointer T ?vX) = Return (Some ?EX) (Pointer T ?vX)"
    by (simp add: Load_eval)
  have s2h: "data ?dX ''X'' = Some (''abc'' # []) \<and> ''abc'' \<noteq> ''null''
      \<and> CanSet (?vX ! 0) \<and> Kind (?vX ! 0) \<in> set float_kinds
      \<and> noFloat (Bits (Kind (?vX ! 0))) ''abc'' = None"
    by (simp add: exported_def float_kinds_def noFloat_def)
  have s2: "value_field noFloat T (0, ''X'') (?dX, ?vX)
       = Return () (\<lparr>data = [''X'' \<mapsto> [''abc'']], savedError = Some ?EX\<rparr>, ?vX)"
    using float_step [where pf = noFloat and t = T and d = ?dX and a = "''X''" and x = "''abc''"
        and xs = "[]" and w = ?vX and i = 0, OF s2h]
    by (simp add: saveError_def addErrorContext_def)
  let ?EA = "LoadTypeError ''array null'' T [] []"
  let ?dU = "\<lparr>data = [''U'' \<mapsto> [''null'', ''y'']], savedError = None\<rparr>"
  have l3: "Load noFloat [''U'' \<mapsto> [''null'', ''y'']]
        (Pointer T [exported ''U'' KSlice KUint (SliceV [UintV 1, UintV 2])])
       = Return (Some ?EA) (Pointer T [exported ''U'' KSlice KUint (SliceV [UintV 0, UintV 0])])"
    by (simp add: Load_eval)
  have s3h: "KUint \<in> set uint_kinds \<and> 0 < length [''null'', ''y'']
      \<and> ParseUint ([''null'', ''y''] ! 0) = (0, Some ErrSyntax)"
    by (simp add: uint_kinds_def ParseUint_def isDigit_def)
  have s3: "value_elem noFloat T KUint [''null'', ''y''] 0 (?dU, [UintV 1, UintV 2])
       = Return () (\<lparr>data = [''U'' \<mapsto> [''null'', ''y'']], savedError = Some ?EA\<rparr>,
            [UintV 0, UintV 2])"
    using uint_elem [where pf = noFloat and t = T and d = ?dU and ek = KUint
        and dataV = "[''null'', ''y'']" and j = 0 and n = 0 and perr = ErrSyntax
        and es = "[UintV 1, UintV 2]", OF s3h]
    by (simp add: saveError_def addErrorContext_def SetUint_def)
  let ?dG = "\<lparr>data = [''G'' \<mapsto> [''null'']], savedError = None\<rparr>"
  have l4: "Load noFloat [''G'' \<mapsto> [''null'']]
        (Pointer T [exported ''G'' KSlice KFloat32 (SliceV [FloatV ()])])
       = Return (Some ?EA) (Pointer T [exported ''G'' KSlice KFloat32 (SliceV [FloatV ()])])"
    by (simp add: Load_eval)
  have s4h: "KFloat32 \<in> set float_kinds \<and> 0 < length [''null'']
      \<and> noFloat (Bits KFloat32) ([''null''] ! 0) = None"
    by (simp add: float_kinds_def noFloat_def)
  have s4: "value_elem noFloat T KFloat32 [''null''] 0 (?dG, [FloatV ()])
       = Return () (\<lparr>data = [''G'' \<mapsto> [''null'']], savedError = Some ?EA\<rparr>, [FloatV ()])"
    using float_elem [where pf = noFloat and t = T and d = ?dG and ek = KFloat32
        and dataV = "[''null'']" and j = 0 and es = "[FloatV ()]", OF s4h]
    by (simp add: saveError_def addErrorContext_def)
  have l5: "Load noFloat [''A'' \<mapsto> [''x''], ''S'' \<mapsto> [''b'']]
        (Pointer T [exported ''A'' KUint KInvalid (UintV 1),
                    exported ''S'' KSlice KString (SliceV [StringV ''a''])])
       = Return (Some errInvalidValue)
           (Pointer T [exported ''A'' KUint KInvalid (UintV 0),
                       exported ''S'' KSlice KString (SliceV [StringV ''b''])])"
    by (simp add: Load_eval)
  show ?thesis
    by (intro conjI) (rule l1 c1 s1 l2 s2 l3 s3 l4 s4 l5)+
qed

end
